theory Spec2Isabelle
  imports Main "HOL-Library.AList"
begin

section \<open>Knowledge sync: the reconciliation engine of sync\_knowledge.py\<close>

text \<open>
  The development embeds \<^verbatim>\<open>KnowledgeSync\<close> of
  \<^verbatim>\<open>src/knowledge-sync/sync_knowledge.py\<close>. Everything the class reads from outside
  (the file system, the remote HTTP service, the hashing and JSON libraries, the
  environment variable) is a field of the record \<open>world\<close>; everything it changes
  (the in-memory cache, the cache file, the requests it has sent, the lines it has
  printed) is a field of the record \<open>sync_state\<close>. An exception that leaves a method
  is the \<open>Inl\<close> alternative of its result, together with the state reached when it
  was raised.

  What is taken for granted: remote identifiers, file names and hashes are
  strings, so that Python's truth value of an identifier is "neither \<^verbatim>\<open>None\<close> nor
  empty"; the file system does not change during one call of \<^verbatim>\<open>sync_collection\<close>.
  A \<open>sync_state\<close> holds a cache of the shape the program writes (collection name
  to file name to an entry with an optional hash and an optional identifier): a
  cache file holding valid JSON of another shape is loaded without a warning
  (\<open>JOther\<close> below) and makes \<^verbatim>\<open>sync_collection\<close> raise at line 343 or 355; such
  runs are not among the states here. \<^verbatim>\<open>time.sleep\<close> has no counterpart.
  \<^verbatim>\<open>_load_config\<close>, \<^verbatim>\<open>sync_all\<close> and \<^verbatim>\<open>watch\<close> are not embedded: the accepted
  extensions and the exclusion patterns are fields of \<open>world\<close>.
\<close>

subsection \<open>Python strings\<close>

text \<open>
  A Python \<^verbatim>\<open>str\<close> is held as the list of the bytes of its UTF-8 encoding. The
  tests on prefixes, substrings and the colon below give on the bytes what Python
  gives on the code points, since what is looked for is ASCII. \<^verbatim>\<open>str.strip()\<close>
  and \<^verbatim>\<open>str.splitlines()\<close> depend on Unicode's white space and line boundaries
  and are fields of \<open>world\<close>, as \<^verbatim>\<open>str.lower()\<close> is. \<open>ascii_strip\<close> and
  \<open>ascii_splitlines\<close> are what they compute on ASCII text (\<^verbatim>\<open>\r\n\<close> counting as
  one boundary); only the test double further down uses them.
\<close>

definition is_space :: "char \<Rightarrow> bool" where
  "is_space c = (c \<in> set [CHR '' '', CHR 0x09, CHR 0x0A, CHR 0x0B, CHR 0x0C, CHR 0x0D,
                            CHR 0x1C, CHR 0x1D, CHR 0x1E, CHR 0x1F])"

definition ascii_strip :: "string \<Rightarrow> string" where
  "ascii_strip s = rev (dropWhile is_space (rev (dropWhile is_space s)))"

definition is_linebreak :: "char \<Rightarrow> bool" where
  "is_linebreak c = (c \<in> set [CHR 0x0A, CHR 0x0B, CHR 0x0C, CHR 0x0D, CHR 0x1C, CHR 0x1D, CHR 0x1E])"

text \<open>\<open>splitlines_from cur s\<close>: the lines of \<open>s\<close>, the first one prefixed by the
  characters already read, \<open>cur\<close> (held in reverse).\<close>

fun splitlines_from :: "string \<Rightarrow> string \<Rightarrow> string list" where
  "splitlines_from cur [] = (if cur = [] then [] else [rev cur])"
| "splitlines_from cur [c] =
     (if is_linebreak c then [rev cur] else [rev (c # cur)])"
| "splitlines_from cur (c # d # cs) =
     (if c = CHR 0x0D \<and> d = CHR 0x0A then rev cur # splitlines_from [] cs
      else if is_linebreak c then rev cur # splitlines_from [] (d # cs)
      else splitlines_from (c # cur) (d # cs))"

definition ascii_splitlines :: "string \<Rightarrow> string list" where
  "ascii_splitlines s = splitlines_from [] s"

definition startswith :: "string \<Rightarrow> string \<Rightarrow> bool" where
  "startswith s p = (take (length p) s = p)"

text \<open>\<^verbatim>\<open>sub in s\<close> on strings.\<close>

fun contains :: "string \<Rightarrow> string \<Rightarrow> bool" where
  "contains [] sub = (sub = [])"
| "contains (c # cs) sub = (startswith (c # cs) sub \<or> contains cs sub)"

subsection \<open>Paths, configuration and the outside world\<close>

text \<open>A \<^verbatim>\<open>pathlib.Path\<close> value, by the attributes the program reads from it.\<close>

record path =
  p_str :: string
  p_name :: string
  p_stem :: string
  p_suffix :: string

text \<open>The exceptions that leave a method: a read that raises, a write that raises,
  a query of \<^verbatim>\<open>pathlib\<close> that raises (each with the path).\<close>

datatype error = ReadError string | WriteError string | QueryError string

datatype http_reply = NoReply | Reply nat string

text \<open>What the program has printed, one constructor for each \<^verbatim>\<open>print\<close>.\<close>

datatype msg =
    Syncing bool string
  | Found nat
  | WarnPathMissing string
  | WarnCacheLoad
  | CreatingKB string
  | ErrorFetchingKBs
  | ErrorCreatingKB string
  | ErrorFetchingFiles
  | Adding string
  | Updating string
  | ErrorUploading string
  | ClearingDuplicates
  | WarnDuplicate
  | ErrorAdding
  | FailedToAdd string
  | ErrorRemoving
  | Removing string

text \<open>
  The requests sent to the remote store and to the vector store, each with the
  answer it got. A listing answers with its decoded items, or \<open>None\<close> when the
  request or the decoding raised; an upload or a creation answers with the
  identifier, or \<open>None\<close> when it raised.
\<close>

datatype event =
    ListCollections "(string \<times> string) list option"
  | CreateCollection string "string option"
  | ListFiles string "(string \<times> string) list option"
  | UploadFile path "string option"
  | PurgeVectors string string
  | AttachFile string string http_reply
  | DetachFile string string bool

record cache_entry =
  e_hash :: "string option"
  e_file_id :: "string option"

type_synonym collection_cache = "(string \<times> cache_entry) list"
type_synonym cache_t = "(string \<times> collection_cache) list"

text \<open>A decoded JSON document: an object of the cache's shape, or anything else.\<close>

datatype json_value = JCache cache_t | JOther string

text \<open>
  The outside world. The remote store is any deterministic service: each answer
  is a function of the requests sent so far and of the request's arguments.
  \<open>fs_read_text\<close> and \<open>fs_read_bytes\<close> give \<open>None\<close> where the read raises;
  the queries of \<^verbatim>\<open>pathlib\<close> (\<open>fs_is_symlink\<close>, \<open>fs_resolve\<close>, \<open>fs_exists\<close>,
  \<open>fs_is_file\<close>, \<open>fs_is_dir\<close>, \<open>fs_rglob\<close>) give \<open>None\<close> where the query raises
  \<^verbatim>\<open>OSError\<close> (a name too long, a directory that cannot be searched);
  \<open>json_loads\<close> gives \<open>None\<close> where the text is not valid JSON.
\<close>

record world =
  extensions :: "string list"
  excludes :: "string list"
  prefix_map :: string
  strip :: "string \<Rightarrow> string"
  splitlines :: "string \<Rightarrow> string list"
  mk_path :: "string \<Rightarrow> path"
  fs_is_symlink :: "path \<Rightarrow> bool option"
  fs_resolve :: "path \<Rightarrow> path option"
  fs_exists :: "path \<Rightarrow> bool option"
  fs_is_file :: "path \<Rightarrow> bool option"
  fs_is_dir :: "path \<Rightarrow> bool option"
  fs_rglob :: "path \<Rightarrow> path list option"
  fs_read_text :: "path \<Rightarrow> string option"
  fs_read_bytes :: "path \<Rightarrow> string option"
  fs_writable :: bool
  fnmatch :: "string \<Rightarrow> string \<Rightarrow> bool"
  lower :: "string \<Rightarrow> string"
  sha256_hex :: "string \<Rightarrow> string"
  json_loads :: "string \<Rightarrow> json_value option"
  json_dumps :: "cache_t \<Rightarrow> string"
  remote_list_collections :: "event list \<Rightarrow> (string \<times> string) list option"
  remote_create :: "event list \<Rightarrow> string \<Rightarrow> string option"
  remote_list_files :: "event list \<Rightarrow> string \<Rightarrow> (string \<times> string) list option"
  remote_upload :: "event list \<Rightarrow> path \<Rightarrow> string option"
  remote_attach :: "event list \<Rightarrow> string \<Rightarrow> string \<Rightarrow> http_reply"
  remote_detach :: "event list \<Rightarrow> string \<Rightarrow> string \<Rightarrow> bool"

text \<open>The cache file, as \<^verbatim>\<open>self.cache_file\<close> finds it: \<^verbatim>\<open>exists()\<close> answers
  \<^verbatim>\<open>False\<close> (\<open>Absent\<close>), answers \<^verbatim>\<open>True\<close> (\<open>Present\<close>, with the text of the file, or
  \<open>None\<close> when reading it raises), or raises (\<open>Inaccessible\<close>: the file lies under
  a directory that cannot be searched).\<close>

datatype cache_file = Absent | Present "string option" | Inaccessible

record sync_state =
  cache :: cache_t
  disk :: cache_file
  trace :: "event list"
  out :: "msg list"

subsection \<open>The definition parser\<close>

definition is_excluded :: "world \<Rightarrow> path \<Rightarrow> bool" where
  "is_excluded w p = list_ex (\<lambda>pattern. fnmatch w (p_str p) pattern) (excludes w)"

text \<open>
  \<^verbatim>\<open>_translate_path\<close>. \<^verbatim>\<open>prefix_map.split(":", 1)\<close> cuts at the first colon, and
  \<^verbatim>\<open>path_str.replace(from_prefix, to_prefix, 1)\<close> replaces the leftmost occurrence,
  which is the prefix itself as the string starts with it.
\<close>

definition translate_path :: "world \<Rightarrow> string \<Rightarrow> string" where
  "translate_path w path_str =
     (let pm = prefix_map w in
      if pm \<noteq> [] \<and> CHR '':'' \<in> set pm then
        (let from_prefix = takeWhile (\<lambda>c. c \<noteq> CHR '':'') pm;
             to_prefix = tl (dropWhile (\<lambda>c. c \<noteq> CHR '':'') pm)
         in if startswith path_str from_prefix
            then to_prefix @ drop (length from_prefix) path_str
            else path_str)
      else path_str)"

definition accepted :: "world \<Rightarrow> path \<Rightarrow> bool" where
  "accepted w p = (lower w (p_suffix p) \<in> set (extensions w) \<and> \<not> is_excluded w p)"

text \<open>The loop of \<^verbatim>\<open>_resolve_path\<close> over the items of a directory; it stops at the
  first item whose \<^verbatim>\<open>is_file()\<close> raises.\<close>

fun filter_items :: "world \<Rightarrow> path list \<Rightarrow> error + path list" where
  "filter_items w [] = Inr []"
| "filter_items w (item # rest) =
     (case fs_is_file w item of
        None \<Rightarrow> Inl (QueryError (p_str item))
      | Some is_file \<Rightarrow>
          (case filter_items w rest of
             Inl e \<Rightarrow> Inl e
           | Inr files \<Rightarrow> Inr (if is_file \<and> accepted w item then item # files else files)))"

text \<open>\<^verbatim>\<open>_resolve_path\<close>: the files of one path reference and what it printed, or the
  exception of the first query that raises.\<close>

definition resolve_path :: "world \<Rightarrow> string \<Rightarrow> error + (path list \<times> msg list)" where
  "resolve_path w path_str =
     (let translated = translate_path w (strip w path_str);
          p0 = mk_path w translated
      in case fs_is_symlink w p0 of
           None \<Rightarrow> Inl (QueryError (p_str p0))
         | Some is_symlink \<Rightarrow>
            (case (if is_symlink then fs_resolve w p0 else Some p0) of
               None \<Rightarrow> Inl (QueryError (p_str p0))
             | Some p \<Rightarrow>
                (case fs_exists w p of
                   None \<Rightarrow> Inl (QueryError (p_str p))
                 | Some exists \<Rightarrow>
                    if \<not> exists then Inr ([], [WarnPathMissing path_str])
                    else
                      (case fs_is_file w p of
                         None \<Rightarrow> Inl (QueryError (p_str p))
                       | Some is_file \<Rightarrow>
                          if is_file then Inr ((if accepted w p then [p] else []), [])
                          else
                            (case fs_is_dir w p of
                               None \<Rightarrow> Inl (QueryError (p_str p))
                             | Some is_dir \<Rightarrow>
                                if is_dir then
                                  (case fs_rglob w p of
                                     None \<Rightarrow> Inl (QueryError (p_str p))
                                   | Some items \<Rightarrow>
                                      (case filter_items w items of
                                         Inl e \<Rightarrow> Inl e
                                       | Inr files \<Rightarrow> Inr (files, [])))
                                else Inr ([], []))))))"

text \<open>The loop of \<^verbatim>\<open>_parse_definition\<close> over the lines, \<open>files\<close> being extended in
  place. An exception of \<^verbatim>\<open>_resolve_path\<close> leaves the loop, with the lines printed
  so far.\<close>

fun parse_lines ::
  "world \<Rightarrow> string list \<Rightarrow> path list \<times> msg list \<Rightarrow> (error \<times> msg list) + (path list \<times> msg list)" where
  "parse_lines w [] acc = Inr acc"
| "parse_lines w (l # ls) (files, msgs) =
     (let line = strip w l in
      if line = [] \<or> startswith line ''#'' then parse_lines w ls (files, msgs)
      else (case resolve_path w line of
              Inl e \<Rightarrow> Inl (e, msgs)
            | Inr (resolved, printed) \<Rightarrow> parse_lines w ls (files @ resolved, msgs @ printed)))"

definition parse_definition :: "world \<Rightarrow> path \<Rightarrow> (error \<times> msg list) + (path list \<times> msg list)" where
  "parse_definition w md_path =
     (case fs_read_text w md_path of
        None \<Rightarrow> Inl (ReadError (p_str md_path), [])
      | Some content \<Rightarrow> parse_lines w (splitlines w content) ([], []))"

text \<open>The path references of a definition text: its stripped lines that are neither
  empty nor comments.\<close>

definition path_refs :: "world \<Rightarrow> string \<Rightarrow> string list" where
  "path_refs w content =
     filter (\<lambda>line. \<not> (line = [] \<or> startswith line ''#''))
       (map (strip w) (splitlines w content))"

text \<open>Whether a path reference is resolved without an exception, and then the files
  and the lines it gives.\<close>

definition resolves :: "world \<Rightarrow> string \<Rightarrow> bool" where
  "resolves w ref = (case resolve_path w ref of Inl e \<Rightarrow> False | Inr r \<Rightarrow> True)"

definition resolved_files :: "world \<Rightarrow> string \<Rightarrow> path list" where
  "resolved_files w ref = (case resolve_path w ref of Inl e \<Rightarrow> [] | Inr (files, printed) \<Rightarrow> files)"

definition resolved_msgs :: "world \<Rightarrow> string \<Rightarrow> msg list" where
  "resolved_msgs w ref = (case resolve_path w ref of Inl e \<Rightarrow> [] | Inr (files, printed) \<Rightarrow> printed)"

subsection \<open>The cache store\<close>

text \<open>
  \<^verbatim>\<open>try: body except Exception: handler\<close>, a raise being the \<open>Inl\<close> alternative:
  the handler runs on every raise of the body, and what it raises itself leaves
  the statement.
\<close>

definition try_except :: "error + 'a \<Rightarrow> (error \<Rightarrow> error + 'a) \<Rightarrow> error + 'a" where
  "try_except body handler = (case body of Inl e \<Rightarrow> handler e | Inr v \<Rightarrow> Inr v)"

text \<open>The body of the \<^verbatim>\<open>try\<close> in \<^verbatim>\<open>_load_cache\<close>:
  \<^verbatim>\<open>json.loads(self.cache_file.read_text())\<close>.\<close>

definition read_cache :: "world \<Rightarrow> string option \<Rightarrow> error + json_value" where
  "read_cache w file_text =
     (case file_text of
        None \<Rightarrow> Inl (ReadError ''cache'')
      | Some txt \<Rightarrow> (case json_loads w txt of
                      None \<Rightarrow> Inl (ReadError ''json'')
                    | Some v \<Rightarrow> Inr v))"

text \<open>\<^verbatim>\<open>_load_cache\<close>: the new value of \<^verbatim>\<open>self.cache\<close> and the lines printed. The
  test \<^verbatim>\<open>self.cache_file.exists()\<close> of line 88 stands before the \<^verbatim>\<open>try\<close>: when it
  raises, the exception leaves the method.\<close>

definition load_cache :: "world \<Rightarrow> cache_file \<Rightarrow> error + (json_value \<times> msg list)" where
  "load_cache w f =
     (case f of
        Inaccessible \<Rightarrow> Inl (QueryError ''cache_file'')
      | Present file_text \<Rightarrow>
          try_except
            (case read_cache w file_text of Inl e \<Rightarrow> Inl e | Inr v \<Rightarrow> Inr (v, []))
            (\<lambda>e. Inr (JCache [], [WarnCacheLoad]))
      | Absent \<Rightarrow> Inr (JCache [], []))"

subsection \<open>The remote store client\<close>

definition say :: "msg \<Rightarrow> sync_state \<Rightarrow> sync_state" where
  "say m st = st\<lparr>out := out st @ [m]\<rparr>"

definition sent :: "event \<Rightarrow> sync_state \<Rightarrow> sync_state" where
  "sent e st = st\<lparr>trace := trace st @ [e]\<rparr>"

text \<open>The dictionary a comprehension builds from a list of items: a key keeps the
  place of its first occurrence and the value of its last.\<close>

definition dict_of :: "(string \<times> string) list \<Rightarrow> (string \<times> string) list" where
  "dict_of items = fold (\<lambda>(k, v) d. AList.update k v d) items []"

text \<open>Python's truth value of an identifier that is \<^verbatim>\<open>None\<close> or a string.\<close>

definition id_of :: "string option \<Rightarrow> string" where
  "id_of x = (case x of None \<Rightarrow> [] | Some i \<Rightarrow> i)"

definition truthy :: "string option \<Rightarrow> bool" where
  "truthy x = (id_of x \<noteq> [])"

definition get_knowledge_bases :: "world \<Rightarrow> sync_state \<Rightarrow> (string \<times> string) list \<times> sync_state" where
  "get_knowledge_bases w st =
     (let r = remote_list_collections w (trace st);
          st1 = sent (ListCollections r) st
      in case r of
           None \<Rightarrow> ([], say ErrorFetchingKBs st1)
         | Some items \<Rightarrow> (dict_of items, st1))"

definition create_knowledge_base :: "world \<Rightarrow> string \<Rightarrow> sync_state \<Rightarrow> string option \<times> sync_state" where
  "create_knowledge_base w name st =
     (let r = remote_create w (trace st) name;
          st1 = sent (CreateCollection name r) st
      in case r of
           None \<Rightarrow> (None, say (ErrorCreatingKB name) st1)
         | Some i \<Rightarrow> (Some i, st1))"

definition get_knowledge_files :: "world \<Rightarrow> string \<Rightarrow> sync_state \<Rightarrow> (string \<times> string) list \<times> sync_state" where
  "get_knowledge_files w kb_id st =
     (let r = remote_list_files w (trace st) kb_id;
          st1 = sent (ListFiles kb_id r) st
      in case r of
           None \<Rightarrow> ([], say ErrorFetchingFiles st1)
         | Some items \<Rightarrow> (dict_of (filter (\<lambda>(filename, i). filename \<noteq> []) items), st1))"

definition upload_file :: "world \<Rightarrow> path \<Rightarrow> sync_state \<Rightarrow> string option \<times> sync_state" where
  "upload_file w file_path st =
     (let r = remote_upload w (trace st) file_path;
          st1 = sent (UploadFile file_path r) st
      in case r of
           None \<Rightarrow> (None, say (ErrorUploading (p_name file_path)) st1)
         | Some i \<Rightarrow> (Some i, st1))"

text \<open>\<^verbatim>\<open>_clear_qdrant_duplicates\<close>: one deletion request for each of the two vector
  collections; whatever they answer is dropped and the method returns \<^verbatim>\<open>True\<close>.\<close>

definition clear_qdrant_duplicates :: "string \<Rightarrow> sync_state \<Rightarrow> sync_state" where
  "clear_qdrant_duplicates file_hash st =
     sent (PurgeVectors ''open-webui_files'' file_hash)
       (sent (PurgeVectors ''open-webui_knowledge'' file_hash) st)"

text \<open>\<^verbatim>\<open>raise_for_status\<close> raises for the 4xx and 5xx status codes.\<close>

definition attach_ok :: "http_reply \<Rightarrow> bool" where
  "attach_ok r = (case r of NoReply \<Rightarrow> False | Reply status body \<Rightarrow> \<not> (400 \<le> status \<and> status < 600))"


text \<open>\<^verbatim>\<open>_add_file_to_knowledge\<close>; its only caller passes a string as \<^verbatim>\<open>file_hash\<close>.\<close>

definition add_file_to_knowledge ::
  "world \<Rightarrow> string \<Rightarrow> string \<Rightarrow> string \<Rightarrow> sync_state \<Rightarrow> bool \<times> sync_state" where
  "add_file_to_knowledge w kb_id file_id file_hash st =
     (let r = remote_attach w (trace st) kb_id file_id;
          st1 = sent (AttachFile kb_id file_id r) st
      in case r of
           NoReply \<Rightarrow> (False, say ErrorAdding st1)
         | Reply status body \<Rightarrow>
             if \<not> (400 \<le> status \<and> status < 600) then (True, st1)
             else if status = 400 \<and> contains body ''Duplicate content'' then
               (if file_hash \<noteq> [] then
                  (let st2 = clear_qdrant_duplicates file_hash (say ClearingDuplicates st1);
                       r2 = remote_attach w (trace st2) kb_id file_id;
                       st3 = sent (AttachFile kb_id file_id r2) st2
                   in if attach_ok r2 then (True, st3) else (False, say WarnDuplicate st3))
                else (False, say WarnDuplicate st1))
             else (False, say ErrorAdding st1))"

definition remove_file_from_knowledge :: "world \<Rightarrow> string \<Rightarrow> string \<Rightarrow> sync_state \<Rightarrow> bool \<times> sync_state" where
  "remove_file_from_knowledge w kb_id file_id st =
     (let r = remote_detach w (trace st) kb_id file_id;
          st1 = sent (DetachFile kb_id file_id r) st
      in if r then (True, st1) else (False, say ErrorRemoving st1))"

subsection \<open>The reconciler\<close>

definition file_hash :: "world \<Rightarrow> path \<Rightarrow> string" where
  "file_hash w p = (case fs_read_bytes w p of None \<Rightarrow> [] | Some content \<Rightarrow> take 16 (sha256_hex w content))"

definition save_cache :: "world \<Rightarrow> sync_state \<Rightarrow> (error \<times> sync_state) + sync_state" where
  "save_cache w st =
     (if fs_writable w then Inr (st\<lparr>disk := Present (Some (json_dumps w (cache st)))\<rparr>)
      else Inl (WriteError ''cache'', st))"

text \<open>The local variables of \<^verbatim>\<open>sync_collection\<close>.\<close>

record locals =
  added :: nat
  updated :: nat
  removed :: nat
  synced_filenames :: "string list"

text \<open>\<^verbatim>\<open>collection_cache\<close> is the dictionary \<^verbatim>\<open>self.cache[cache_key]\<close> itself, so a
  change of it is a change of \<^verbatim>\<open>self.cache\<close>.\<close>

definition collection_cache_of :: "sync_state \<Rightarrow> string \<Rightarrow> collection_cache" where
  "collection_cache_of st cache_key = (case map_of (cache st) cache_key of None \<Rightarrow> [] | Some cc \<Rightarrow> cc)"

definition set_entry :: "string \<Rightarrow> string \<Rightarrow> cache_entry \<Rightarrow> sync_state \<Rightarrow> sync_state" where
  "set_entry cache_key filename e st =
     st\<lparr>cache := AList.update cache_key (AList.update filename e (collection_cache_of st cache_key)) (cache st)\<rparr>"

definition del_entry :: "string \<Rightarrow> string \<Rightarrow> sync_state \<Rightarrow> sync_state" where
  "del_entry cache_key filename st =
     st\<lparr>cache := AList.update cache_key (AList.delete filename (collection_cache_of st cache_key)) (cache st)\<rparr>"

definition cached_hash_of :: "sync_state \<Rightarrow> string \<Rightarrow> string \<Rightarrow> string option" where
  "cached_hash_of st cache_key filename =
     (case map_of (collection_cache_of st cache_key) filename of None \<Rightarrow> None | Some e \<Rightarrow> e_hash e)"

definition cached_file_id_of :: "sync_state \<Rightarrow> string \<Rightarrow> string \<Rightarrow> string option" where
  "cached_file_id_of st cache_key filename =
     (case map_of (collection_cache_of st cache_key) filename of None \<Rightarrow> None | Some e \<Rightarrow> e_file_id e)"

definition in_listing :: "string \<Rightarrow> (string \<times> string) list \<Rightarrow> bool" where
  "in_listing filename existing_files = (filename \<in> set (map fst existing_files))"

text \<open>The condition of the \<^verbatim>\<open>continue\<close> in the loop over the files.\<close>

definition skip_condition ::
  "bool \<Rightarrow> string option \<Rightarrow> string \<Rightarrow> string option \<Rightarrow> string \<Rightarrow> (string \<times> string) list \<Rightarrow> bool" where
  "skip_condition force cached_hash fh cached_file_id filename existing_files =
     (\<not> force \<and> cached_hash = Some fh \<and> truthy cached_file_id \<and> in_listing filename existing_files)"

definition count_synced :: "bool \<Rightarrow> locals \<Rightarrow> locals" where
  "count_synced in_remote lv =
     (if in_remote then lv\<lparr>updated := updated lv + 1\<rparr> else lv\<lparr>added := added lv + 1\<rparr>)"

text \<open>The local variable \<^verbatim>\<open>action\<close>, as the line printed with it.\<close>

definition action :: "string \<Rightarrow> (string \<times> string) list \<Rightarrow> msg" where
  "action filename existing_files =
     (if \<not> in_listing filename existing_files then Adding filename else Updating filename)"

text \<open>The body of the loop over the files, for one file.\<close>

definition process_file ::
  "world \<Rightarrow> string \<Rightarrow> string \<Rightarrow> bool \<Rightarrow> bool \<Rightarrow> (string \<times> string) list \<Rightarrow> path
     \<Rightarrow> locals \<times> sync_state \<Rightarrow> (error \<times> sync_state) + (locals \<times> sync_state)" where
  "process_file w kb_id cache_key force dry_run existing_files file_path s =
     (case s of (lv0, st) \<Rightarrow>
      let filename = p_name file_path;
          fh = file_hash w file_path;
          lv = lv0\<lparr>synced_filenames := synced_filenames lv0 @ [filename]\<rparr>;
          cached_hash = cached_hash_of st cache_key filename;
          cached_file_id = cached_file_id_of st cache_key filename
      in if skip_condition force cached_hash fh cached_file_id filename existing_files
         then Inr (lv, st)
         else
           (let in_remote = in_listing filename existing_files;
                st1 = say (action filename existing_files) st
            in if \<not> dry_run then
                 (case fs_read_bytes w file_path of
                    None \<Rightarrow> Inl (ReadError (p_str file_path), st1)
                  | Some content \<Rightarrow>
                     (let content_hash = sha256_hex w content;
                          st2 = clear_qdrant_duplicates content_hash st1
                      in case upload_file w file_path st2 of (file_id, st3) \<Rightarrow>
                           if \<not> truthy file_id then Inr (lv, st3)
                           else (case add_file_to_knowledge w kb_id (id_of file_id) content_hash st3 of
                                   (ok, st4) \<Rightarrow>
                                     if ok
                                     then Inr (count_synced in_remote lv,
                                               set_entry cache_key filename
                                                 \<lparr>e_hash = Some fh, e_file_id = file_id\<rparr> st4)
                                     else Inr (lv, say (FailedToAdd filename) st4))))
               else Inr (count_synced in_remote lv, st1)))"

fun sync_files ::
  "world \<Rightarrow> string \<Rightarrow> string \<Rightarrow> bool \<Rightarrow> bool \<Rightarrow> (string \<times> string) list \<Rightarrow> path list
     \<Rightarrow> locals \<times> sync_state \<Rightarrow> (error \<times> sync_state) + (locals \<times> sync_state)" where
  "sync_files w kb_id cache_key force dry_run existing_files [] s = Inr s"
| "sync_files w kb_id cache_key force dry_run existing_files (file_path # rest) s =
     (case process_file w kb_id cache_key force dry_run existing_files file_path s of
        Inl e \<Rightarrow> Inl e
      | Inr s' \<Rightarrow> sync_files w kb_id cache_key force dry_run existing_files rest s')"

text \<open>The loop over \<^verbatim>\<open>existing_files.items()\<close> that removes what is no longer in the
  definition.\<close>

fun remove_stale ::
  "world \<Rightarrow> string \<Rightarrow> string \<Rightarrow> bool \<Rightarrow> (string \<times> string) list
     \<Rightarrow> locals \<times> sync_state \<Rightarrow> locals \<times> sync_state" where
  "remove_stale w kb_id cache_key dry_run [] s = s"
| "remove_stale w kb_id cache_key dry_run ((filename, file_id) # rest) (lv, st) =
     (if filename \<notin> set (synced_filenames lv) then
        (let st1 = say (Removing filename) st;
             st2 = (if \<not> dry_run then snd (remove_file_from_knowledge w kb_id file_id st1) else st1);
             st3 = del_entry cache_key filename st2
         in remove_stale w kb_id cache_key dry_run rest (lv\<lparr>removed := removed lv + 1\<rparr>, st3))
      else remove_stale w kb_id cache_key dry_run rest (lv, st))"

definition counts :: "locals \<Rightarrow> nat \<times> nat \<times> nat" where
  "counts lv = (added lv, updated lv, removed lv)"

text \<open>\<^verbatim>\<open>sync_collection\<close> from the listing of the remote files on, the collection's
  identifier being known.\<close>

definition sync_known ::
  "world \<Rightarrow> string \<Rightarrow> string \<Rightarrow> bool \<Rightarrow> bool \<Rightarrow> path list \<Rightarrow> sync_state
     \<Rightarrow> (error \<times> sync_state) + ((nat \<times> nat \<times> nat) \<times> sync_state)" where
  "sync_known w kb_id collection_name force dry_run files_to_sync st =
     (case (if dry_run then ([], st) else get_knowledge_files w kb_id st) of
        (existing_files, st1) \<Rightarrow>
          (let st2 = (if collection_name \<notin> set (map fst (cache st1))
                      then st1\<lparr>cache := AList.update collection_name [] (cache st1)\<rparr> else st1)
           in case sync_files w kb_id collection_name force dry_run existing_files files_to_sync
                     (\<lparr>added = 0, updated = 0, removed = 0, synced_filenames = []\<rparr>, st2) of
                Inl e \<Rightarrow> Inl e
              | Inr s \<Rightarrow>
                  (case remove_stale w kb_id collection_name dry_run existing_files s of
                     (lv, st3) \<Rightarrow>
                       if \<not> dry_run
                       then (case save_cache w st3 of
                               Inl e \<Rightarrow> Inl e
                             | Inr st4 \<Rightarrow> Inr (counts lv, st4))
                       else Inr (counts lv, st3))))"

definition sync_collection ::
  "world \<Rightarrow> path \<Rightarrow> bool \<Rightarrow> bool \<Rightarrow> sync_state
     \<Rightarrow> (error \<times> sync_state) + ((nat \<times> nat \<times> nat) \<times> sync_state)" where
  "sync_collection w md_path force dry_run st =
     (let collection_name = p_stem md_path;
          st0 = say (Syncing dry_run collection_name) st
      in case parse_definition w md_path of
           Inl (e, printed) \<Rightarrow> Inl (e, st0\<lparr>out := out st0 @ printed\<rparr>)
         | Inr (files_to_sync, printed) \<Rightarrow>
            (let st1 = say (Found (length files_to_sync)) (st0\<lparr>out := out st0 @ printed\<rparr>)
             in if files_to_sync = [] then Inr ((0, 0, 0), st1)
                else
                  (case get_knowledge_bases w st1 of (knowledge_bases, st2) \<Rightarrow>
                     (let kb_id = map_of knowledge_bases collection_name
                      in if \<not> truthy kb_id then
                           (let st3 = say (CreatingKB collection_name) st2
                            in if \<not> dry_run then
                                 (case create_knowledge_base w collection_name st3 of (kb_id', st4) \<Rightarrow>
                                    if \<not> truthy kb_id' then Inr ((0, 0, 0), st4)
                                    else sync_known w (id_of kb_id') collection_name force dry_run
                                           files_to_sync st4)
                               else sync_known w ''dry-run-id'' collection_name force dry_run
                                      files_to_sync st3)
                         else sync_known w (id_of kb_id) collection_name force dry_run
                                files_to_sync st2))))"

text \<open>The requests that change the remote store or the vector store.\<close>

fun is_mutation :: "event \<Rightarrow> bool" where
  "is_mutation (ListCollections r) = False"
| "is_mutation (ListFiles kb r) = False"
| "is_mutation (CreateCollection n r) = True"
| "is_mutation (UploadFile p r) = True"
| "is_mutation (PurgeVectors c h) = True"
| "is_mutation (AttachFile kb i r) = True"
| "is_mutation (DetachFile kb i r) = True"

subsection \<open>Reading a result\<close>

definition state_of :: "(error \<times> sync_state) + ('a \<times> sync_state) \<Rightarrow> sync_state" where
  "state_of r = (case r of Inl (e, st) \<Rightarrow> st | Inr (v, st) \<Rightarrow> st)"

definition result_counts ::
  "(error \<times> sync_state) + ((nat \<times> nat \<times> nat) \<times> sync_state) \<Rightarrow> (nat \<times> nat \<times> nat) option" where
  "result_counts r = (case r of Inl e \<Rightarrow> None | Inr (c, st) \<Rightarrow> Some c)"

text \<open>The requests sent between two states of one run.\<close>

definition new_events :: "sync_state \<Rightarrow> sync_state \<Rightarrow> event list" where
  "new_events st st' = drop (length (trace st)) (trace st')"

definition new_output :: "sync_state \<Rightarrow> sync_state \<Rightarrow> msg list" where
  "new_output st st' = drop (length (out st)) (out st')"

subsection \<open>A test double\<close>

text \<open>
  A small world to run the reconciler in: three files \<^verbatim>\<open>x/a.md\<close>, \<^verbatim>\<open>y/a.md\<close>
  and \<^verbatim>\<open>b.md\<close>, each holding its own path as content, and a remote store that
  accepts every request, names an uploaded file after its file name and lists
  the files attached so far.
\<close>

definition demo_path :: "string \<Rightarrow> path" where
  "demo_path s =
     (let name = rev (takeWhile (\<lambda>c. c \<noteq> CHR ''/'') (rev s))
      in \<lparr>p_str = s, p_name = name,
          p_stem = takeWhile (\<lambda>c. c \<noteq> CHR ''.'') name,
          p_suffix = dropWhile (\<lambda>c. c \<noteq> CHR ''.'') name\<rparr>)"

fun attached_files :: "event list \<Rightarrow> (string \<times> string) list" where
  "attached_files [] = []"
| "attached_files (AttachFile kb_id file_id r # t) =
     (if attach_ok r then (drop 5 file_id, file_id) # attached_files t else attached_files t)"
| "attached_files (e # t) = attached_files t"


definition demo_world :: "string \<Rightarrow> world" where
  "demo_world definition_text =
     \<lparr>extensions = [''.md''], excludes = [''*/.git/*''], prefix_map = [],
      strip = ascii_strip, splitlines = ascii_splitlines,
      mk_path = demo_path,
      fs_is_symlink = (\<lambda>p. Some False), fs_resolve = (\<lambda>p. Some p),
      fs_exists = (\<lambda>p. Some (p_str p \<in> set [''x/a.md'', ''y/a.md'', ''b.md''])),
      fs_is_file = (\<lambda>p. Some (p_str p \<in> set [''x/a.md'', ''y/a.md'', ''b.md''])),
      fs_is_dir = (\<lambda>p. Some False), fs_rglob = (\<lambda>p. Some []),
      fs_read_text = (\<lambda>p. if p_str p = ''kb/docs.md'' then Some definition_text else None),
      fs_read_bytes = (\<lambda>p. Some (p_str p)),
      fs_writable = True,
      fnmatch = (\<lambda>s pattern. False), lower = (\<lambda>s. s),
      sha256_hex = (\<lambda>content. ''sha:'' @ content),
      json_loads = (\<lambda>txt. if txt = ''{}'' then Some (JCache []) else None),
      json_dumps = (\<lambda>c. concat (map fst c)),
      remote_list_collections = (\<lambda>t. Some [(''docs'', ''kb1'')]),
      remote_create = (\<lambda>t name. Some (''kb-'' @ name)),
      remote_list_files = (\<lambda>t kb_id. Some (attached_files t)),
      remote_upload = (\<lambda>t p. Some (''file-'' @ p_name p)),
      remote_attach = (\<lambda>t kb_id file_id. Reply 200 []),
      remote_detach = (\<lambda>t kb_id file_id. True)\<rparr>"


text \<open>The world whose definition names \<^verbatim>\<open>x/a.md\<close> and then a path on which the file
  system's queries raise.\<close>

definition raising_world :: world where
  "raising_world = (demo_world ''x/a.md\<newline>too/long'')\<lparr>fs_is_symlink :=
      (\<lambda>p. if p_str p = ''too/long'' then None else Some False)\<rparr>"

text \<open>The world whose remote store lists no collection.\<close>

definition no_kb_world :: world where
  "no_kb_world = (demo_world ''x/a.md'')\<lparr>remote_list_collections := (\<lambda>t. Some [])\<rparr>"

text \<open>The world whose remote collection still lists \<^verbatim>\<open>old.md\<close>, which the
  definition no longer names, and refuses every detachment; and a state whose cache
  holds both files.\<close>

definition stale_world :: world where
  "stale_world = (demo_world ''x/a.md'')\<lparr>
      remote_list_files := (\<lambda>t kb_id. Some [(''a.md'', ''file-a.md''), (''old.md'', ''file-old.md'')]),
      remote_detach := (\<lambda>t kb_id file_id. False)\<rparr>"

definition stale_state :: sync_state where
  "stale_state =
     \<lparr>cache = [(''docs'', [(''a.md'', \<lparr>e_hash = Some ''sha:x/a.md'', e_file_id = Some ''file-a.md''\<rparr>),
                          (''old.md'', \<lparr>e_hash = Some ''sha:old.md'', e_file_id = Some ''file-old.md''\<rparr>)])],
      disk = Present (Some ''docs''), trace = [], out = []\<rparr>"

text \<open>Two worlds with a definition of two lines: two files of different names, and
  two files of the same name \<^verbatim>\<open>a.md\<close> in different folders, with different content.\<close>

definition two_files_world :: world where
  "two_files_world = demo_world ''x/a.md\<newline>b.md''"

definition same_name_world :: world where
  "same_name_world = demo_world ''x/a.md\<newline>y/a.md''"

definition docs_md :: path where
  "docs_md = demo_path ''kb/docs.md''"

definition empty_state :: sync_state where
  "empty_state = \<lparr>cache = [], disk = Absent, trace = [], out = []\<rparr>"

text \<open>The state after \<^verbatim>\<open>x/a.md\<close> has been synced to \<^verbatim>\<open>docs\<close> as \<^verbatim>\<open>a.md\<close>.\<close>

definition synced_state :: sync_state where
  "synced_state =
     \<lparr>cache = [(''docs'', [(''a.md'', \<lparr>e_hash = Some ''sha:x/a.md'', e_file_id = Some ''file-a.md''\<rparr>)])],
      disk = Present (Some ''docs''),
      trace = [UploadFile (demo_path ''x/a.md'') (Some ''file-a.md''),
               AttachFile ''kb1'' ''file-a.md'' (Reply 200 [])],
      out = []\<rparr>"

subsection \<open>Observations on a run\<close>

text \<open>A request other than an upload or a creation answered without an identifier;
  a line other than \<^verbatim>\<open>Failed to add\<close>.\<close>

fun request_accepted :: "event \<Rightarrow> bool" where
  "request_accepted (UploadFile p r) = truthy r"
| "request_accepted (CreateCollection n r) = truthy r"
| "request_accepted e = True"

fun not_failed :: "msg \<Rightarrow> bool" where
  "not_failed (FailedToAdd n) = False"
| "not_failed m = True"

text \<open>\<open>confirmed es fid\<close>: among the requests \<open>es\<close>, an upload was answered with
  the identifier \<open>fid\<close> and a later attachment of \<open>fid\<close> was accepted.\<close>

fun is_attach_ok_of :: "string \<Rightarrow> event \<Rightarrow> bool" where
  "is_attach_ok_of fid (AttachFile kb i r) = (i = fid \<and> attach_ok r)"
| "is_attach_ok_of fid e = False"

fun confirmed :: "event list \<Rightarrow> string \<Rightarrow> bool" where
  "confirmed [] fid = False"
| "confirmed (UploadFile p r # es) fid =
     ((r = Some fid \<and> list_ex (is_attach_ok_of fid) es) \<or> confirmed es fid)"
| "confirmed (e # es) fid = confirmed es fid"

text \<open>The cache entry of a file name in a collection.\<close>

definition entry :: "sync_state \<Rightarrow> string \<Rightarrow> string \<Rightarrow> cache_entry option" where
  "entry st coll fn = map_of (collection_cache_of st coll) fn"

text \<open>\<open>writes_confirmed st st'\<close>: from \<open>st\<close> to \<open>st'\<close> requests were only added, and
  every cache entry of \<open>st'\<close> that \<open>st\<close> did not hold carries an identifier
  confirmed by the requests added.\<close>

definition writes_confirmed :: "sync_state \<Rightarrow> sync_state \<Rightarrow> bool" where
  "writes_confirmed st st' =
     (\<exists>ev. trace st' = trace st @ ev \<and>
        (\<forall>coll fn e. entry st' coll fn = Some e \<longrightarrow>
           entry st coll fn = Some e \<or>
           (\<exists>fid. e_file_id e = Some fid \<and> fid \<noteq> [] \<and> confirmed ev fid)))"

text \<open>A run from \<open>st\<close> to \<open>st'\<close> in which every upload and every creation got its
  identifier and no file failed to be added.\<close>

definition clean_run :: "sync_state \<Rightarrow> sync_state \<Rightarrow> bool" where
  "clean_run st st' = (list_all request_accepted (new_events st st') \<and> list_all not_failed (new_output st st'))"

text \<open>The cache of collection \<open>cache_key\<close> holds the current hash of a file and a
  remote identifier for it.\<close>

definition up_to_date :: "world \<Rightarrow> string \<Rightarrow> sync_state \<Rightarrow> path \<Rightarrow> bool" where
  "up_to_date w cache_key st f =
     (cached_hash_of st cache_key (p_name f) = Some (file_hash w f)
      \<and> truthy (cached_file_id_of st cache_key (p_name f)))"

text \<open>Resolved files that share a file name have the same content hash.\<close>

definition same_name_same_hash :: "world \<Rightarrow> path list \<Rightarrow> bool" where
  "same_name_same_hash w files =
     list_all (\<lambda>f. list_all (\<lambda>g. p_name f = p_name g \<longrightarrow> file_hash w f = file_hash w g) files) files"

text \<open>From \<open>st\<close> to \<open>st'\<close> requests and lines were only added.\<close>

definition extends :: "sync_state \<Rightarrow> sync_state \<Rightarrow> bool" where
  "extends st st' = (\<exists>ev ms. trace st' = trace st @ ev \<and> out st' = out st @ ms)"

text \<open>Two live runs of \<^verbatim>\<open>sync_collection\<close> in a row, as the watch loop makes them,
  the second one not forced: the requests the second run sent, when both
  returned and the first was clean.\<close>

definition second_run_events :: "world \<Rightarrow> path \<Rightarrow> bool \<Rightarrow> sync_state \<Rightarrow> event list option" where
  "second_run_events w md_path force1 st =
     (case sync_collection w md_path force1 False st of
        Inl e \<Rightarrow> None
      | Inr (c1, st1) \<Rightarrow>
          if clean_run st st1 then
            (case sync_collection w md_path False False st1 of
               Inl e \<Rightarrow> None
             | Inr (c2, st2) \<Rightarrow> Some (new_events st1 st2))
          else None)"

section \<open>Properties\<close>

subsection \<open>The state through the client's methods\<close>

lemma say_simps [simp]:
  "cache (say m st) = cache st" "disk (say m st) = disk st"
  "trace (say m st) = trace st" "out (say m st) = out st @ [m]"
  by (simp_all add: say_def)

lemma sent_simps [simp]:
  "cache (sent e st) = cache st" "disk (sent e st) = disk st"
  "trace (sent e st) = trace st @ [e]" "out (sent e st) = out st"
  by (simp_all add: sent_def)

lemma clear_simps [simp]:
  "cache (clear_qdrant_duplicates h st) = cache st" "disk (clear_qdrant_duplicates h st) = disk st"
  "trace (clear_qdrant_duplicates h st) =
     trace st @ [PurgeVectors ''open-webui_knowledge'' h, PurgeVectors ''open-webui_files'' h]"
  "out (clear_qdrant_duplicates h st) = out st"
  by (simp_all add: clear_qdrant_duplicates_def)

lemma upload_file_props:
  assumes "upload_file w p st = (r, st')"
  shows "cache st' = cache st" "disk st' = disk st"
        "trace st' = trace st @ [UploadFile p r]"
        "r = remote_upload w (trace st) p"
        "out st' = out st @ (if r = None then [ErrorUploading (p_name p)] else [])"
  using assms by (auto simp: upload_file_def Let_def split: option.splits)

lemma add_file_props:
  assumes "add_file_to_knowledge w kb fid h st = (ok, st')"
  shows "cache st' = cache st" "disk st' = disk st"
        "\<exists>ev. trace st' = trace st @ ev \<and> list_all request_accepted ev \<and> (ok \<longrightarrow> list_ex (is_attach_ok_of fid) ev)"
        "\<exists>ms. out st' = out st @ ms \<and> list_all not_failed ms"
  using assms
  by (auto simp: add_file_to_knowledge_def Let_def attach_ok_def split: http_reply.splits if_splits)

lemma remove_file_props:
  assumes "remove_file_from_knowledge w kb fid st = (ok, st')"
  shows "cache st' = cache st" "disk st' = disk st"
        "trace st' = trace st @ [DetachFile kb fid ok]"
        "ok = remote_detach w (trace st) kb fid"
        "out st' = out st @ (if ok then [] else [ErrorRemoving])"
  using assms by (auto simp: remove_file_from_knowledge_def Let_def split: if_splits)

lemma set_entry_simps [simp]:
  "disk (set_entry key fn e st) = disk st" "trace (set_entry key fn e st) = trace st"
  "out (set_entry key fn e st) = out st"
  by (simp_all add: set_entry_def)

lemma del_entry_simps [simp]:
  "disk (del_entry key fn st) = disk st" "trace (del_entry key fn st) = trace st"
  "out (del_entry key fn st) = out st"
  by (simp_all add: del_entry_def)

lemma entry_set_entry:
  "entry (set_entry key fn e st) coll fn' =
     (if coll = key \<and> fn' = fn then Some e else entry st coll fn')"
  by (simp add: entry_def set_entry_def collection_cache_of_def update_conv')

lemma entry_del_entry:
  "entry (del_entry key fn st) coll fn' =
     (if coll = key \<and> fn' = fn then None else entry st coll fn')"
  by (auto simp: entry_def del_entry_def collection_cache_of_def update_conv' delete_conv')

lemma process_file_Inl:
  assumes "process_file w kb key force dry existing f (lv, st) = Inl (e, st')"
  shows "st' = say (action (p_name f) existing) st"
  using assms
  by (auto simp: process_file_def Let_def split: if_splits option.splits prod.splits)

lemma process_file_cases:
  assumes "process_file w kb key force dry existing f (lv, st) = Inr (lv', st')"
  obtains
    (skipped) "skip_condition force (cached_hash_of st key (p_name f)) (file_hash w f)
                 (cached_file_id_of st key (p_name f)) (p_name f) existing"
       "lv' = lv\<lparr>synced_filenames := synced_filenames lv @ [p_name f]\<rparr>" "st' = st"
  | (dry_run) "\<not> skip_condition force (cached_hash_of st key (p_name f)) (file_hash w f)
                 (cached_file_id_of st key (p_name f)) (p_name f) existing" "dry"
       "lv' = count_synced (in_listing (p_name f) existing) (lv\<lparr>synced_filenames := synced_filenames lv @ [p_name f]\<rparr>)"
       "st' = say (action (p_name f) existing) st"
  | (failed) ev ms where
       "\<not> skip_condition force (cached_hash_of st key (p_name f)) (file_hash w f)
                 (cached_file_id_of st key (p_name f)) (p_name f) existing" "\<not> dry"
       "lv' = lv\<lparr>synced_filenames := synced_filenames lv @ [p_name f]\<rparr>"
       "cache st' = cache st" "disk st' = disk st"
       "trace st' = trace st @ ev" "out st' = out st @ action (p_name f) existing # ms"
       "\<not> (list_all request_accepted ev \<and> list_all not_failed ms)"
  | (synced) fid ev ms where
       "\<not> skip_condition force (cached_hash_of st key (p_name f)) (file_hash w f)
                 (cached_file_id_of st key (p_name f)) (p_name f) existing" "\<not> dry"
       "lv' = count_synced (in_listing (p_name f) existing) (lv\<lparr>synced_filenames := synced_filenames lv @ [p_name f]\<rparr>)"
       "fid \<noteq> []"
       "cache st' = cache (set_entry key (p_name f) \<lparr>e_hash = Some (file_hash w f), e_file_id = Some fid\<rparr> st)"
       "disk st' = disk st"
       "trace st' = trace st @ ev" "out st' = out st @ action (p_name f) existing # ms" "confirmed ev fid"
proof (cases "skip_condition force (cached_hash_of st key (p_name f)) (file_hash w f)
                 (cached_file_id_of st key (p_name f)) (p_name f) existing")
  case True
  with assms show ?thesis by (intro skipped) (auto simp: process_file_def Let_def)
next
  case ns: False
  show ?thesis
  proof (cases dry)
    case True
    with ns assms show ?thesis by (intro dry_run) (auto simp: process_file_def Let_def)
  next
    case live: False
    let ?st1 = "say (action (p_name f) existing) st"
    let ?lv1 = "lv\<lparr>synced_filenames := synced_filenames lv @ [p_name f]\<rparr>"
    from assms ns live obtain content where rd: "fs_read_bytes w f = Some content"
      by (auto simp: process_file_def Let_def split: option.splits)
    let ?st2 = "clear_qdrant_duplicates (sha256_hex w content) ?st1"
    obtain r st3 where up: "upload_file w f ?st2 = (r, st3)" by (cases "upload_file w f ?st2")
    note u = upload_file_props [OF up]
    show ?thesis
    proof (cases "truthy r")
      case False
      with assms ns live rd up have "lv' = ?lv1" "st' = st3"
        by (auto simp: process_file_def Let_def)
      moreover have "\<not> list_all request_accepted
          ([PurgeVectors ''open-webui_knowledge'' (sha256_hex w content),
            PurgeVectors ''open-webui_files'' (sha256_hex w content), UploadFile f r])"
        using False by simp
      ultimately show ?thesis using u ns live
        by (intro failed [where ev = "[PurgeVectors ''open-webui_knowledge'' (sha256_hex w content),
            PurgeVectors ''open-webui_files'' (sha256_hex w content), UploadFile f r]"
            and ms = "(if r = None then [ErrorUploading (p_name f)] else [])"]) auto
    next
      case tr: True
      then obtain fid where fid: "r = Some fid" "fid \<noteq> []" "id_of r = fid"
        by (cases r) (auto simp: truthy_def id_of_def)
      obtain ok st4 where ad: "add_file_to_knowledge w kb fid (sha256_hex w content) st3 = (ok, st4)"
        by (cases "add_file_to_knowledge w kb fid (sha256_hex w content) st3")
      note a = add_file_props [OF ad]
      from a(3) obtain ev where ev: "trace st4 = trace st3 @ ev" "list_all request_accepted ev"
        "ok \<longrightarrow> list_ex (is_attach_ok_of fid) ev" by blast
      from a(4) obtain ms where ms: "out st4 = out st3 @ ms" "list_all not_failed ms" by blast
      show ?thesis
      proof (cases ok)
        case True
        with assms ns live rd up tr fid ad have
          "lv' = count_synced (in_listing (p_name f) existing) ?lv1"
          "st' = set_entry key (p_name f) \<lparr>e_hash = Some (file_hash w f), e_file_id = Some fid\<rparr> st4"
          by (auto simp: process_file_def Let_def)
        moreover have "cache (set_entry key (p_name f) \<lparr>e_hash = Some (file_hash w f), e_file_id = Some fid\<rparr> st4)
           = cache (set_entry key (p_name f) \<lparr>e_hash = Some (file_hash w f), e_file_id = Some fid\<rparr> st)"
          using a(1) u(1) by (simp add: set_entry_def collection_cache_of_def)
        moreover have "confirmed ([PurgeVectors ''open-webui_knowledge'' (sha256_hex w content),
            PurgeVectors ''open-webui_files'' (sha256_hex w content), UploadFile f r] @ ev) fid"
          using True ev(3) fid by simp
        ultimately show ?thesis using u a(2) ev ms ns live fid
          by (intro synced [where fid = fid and ev = "[PurgeVectors ''open-webui_knowledge'' (sha256_hex w content),
            PurgeVectors ''open-webui_files'' (sha256_hex w content), UploadFile f r] @ ev"
            and ms = "(if r = None then [ErrorUploading (p_name f)] else []) @ ms"]) auto
      next
        case False
        with assms ns live rd up tr fid ad have
          "lv' = ?lv1" "st' = say (FailedToAdd (p_name f)) st4"
          by (auto simp: process_file_def Let_def)
        then show ?thesis using u a(1,2) ev ms ns live fid
          by (intro failed [where ev = "[PurgeVectors ''open-webui_knowledge'' (sha256_hex w content),
            PurgeVectors ''open-webui_files'' (sha256_hex w content), UploadFile f r] @ ev"
            and ms = "(if r = None then [ErrorUploading (p_name f)] else []) @ ms @ [FailedToAdd (p_name f)]"]) auto
      qed
    qed
  qed
qed

lemma process_file_announces:
  assumes "\<not> skip_condition force (cached_hash_of st key (p_name f)) (file_hash w f)
                 (cached_file_id_of st key (p_name f)) (p_name f) existing"
  shows "\<exists>ms. out (state_of (process_file w kb key force dry existing f (lv, st))) =
              out st @ action (p_name f) existing # ms"
proof (cases "process_file w kb key force dry existing f (lv, st)")
  case (Inl a)
  obtain e st' where a: "a = (e, st')" by (cases a)
  from process_file_Inl [OF Inl [unfolded a]] show ?thesis
    using Inl a by (simp add: state_of_def)
next
  case (Inr b)
  obtain lv' st' where b: "b = (lv', st')" by (cases b)
  have so: "state_of (process_file w kb key force dry existing f (lv, st)) = st'"
    using Inr b by (simp add: state_of_def)
  from Inr [unfolded b] have "\<exists>ms. out st' = out st @ action (p_name f) existing # ms"
    using assms by (cases rule: process_file_cases) auto
  then show ?thesis by (simp only: so)
qed


lemma parse_lines_resolved:
  assumes "list_all (resolves w)
             (filter (\<lambda>line. \<not> (line = [] \<or> startswith line ''#'')) (map (strip w) ls))"
  shows "parse_lines w ls (files, msgs) =
     Inr (files @ concat (map (resolved_files w)
                (filter (\<lambda>line. \<not> (line = [] \<or> startswith line ''#'')) (map (strip w) ls))),
          msgs @ concat (map (resolved_msgs w)
                (filter (\<lambda>line. \<not> (line = [] \<or> startswith line ''#'')) (map (strip w) ls))))"
  using assms
proof (induction ls arbitrary: files msgs)
  case Nil
  then show ?case by simp
next
  case (Cons l ls)
  show ?case
  proof (cases "strip w l = [] \<or> startswith (strip w l) ''#''")
    case True
    then show ?thesis using Cons.IH [of files msgs] Cons.prems by (auto simp: Let_def)
  next
    case False
    with Cons.prems have r: "resolves w (strip w l)"
      and rest: "list_all (resolves w)
             (filter (\<lambda>line. \<not> (line = [] \<or> startswith line ''#'')) (map (strip w) ls))"
      by auto
    from r obtain resolved printed where rp: "resolve_path w (strip w l) = Inr (resolved, printed)"
      by (cases "resolve_path w (strip w l)") (auto simp: resolves_def)
    have f: "resolved_files w (strip w l) = resolved" "resolved_msgs w (strip w l) = printed"
      using rp by (simp_all add: resolved_files_def resolved_msgs_def)
    show ?thesis using False rp f Cons.IH [OF rest, of "files @ resolved" "msgs @ printed"]
      by (simp add: Let_def)
  qed
qed

lemma parse_lines_raises:
  assumes "\<not> list_all (resolves w)
             (filter (\<lambda>line. \<not> (line = [] \<or> startswith line ''#'')) (map (strip w) ls))"
  shows "\<exists>e printed. parse_lines w ls (files, msgs) = Inl (e, printed)"
  using assms
proof (induction ls arbitrary: files msgs)
  case Nil
  then show ?case by simp
next
  case (Cons l ls)
  show ?case
  proof (cases "strip w l = [] \<or> startswith (strip w l) ''#''")
    case True
    then show ?thesis using Cons.IH [of files msgs] Cons.prems by (auto simp: Let_def)
  next
    case False
    show ?thesis
    proof (cases "resolve_path w (strip w l)")
      case (Inl e)
      then show ?thesis using False by (simp add: Let_def)
    next
      case (Inr b)
      obtain resolved printed where b: "b = (resolved, printed)" by (cases b)
      from Inr have "resolves w (strip w l)" by (simp add: resolves_def)
      with Cons.prems False have "\<not> list_all (resolves w)
             (filter (\<lambda>line. \<not> (line = [] \<or> startswith line ''#'')) (map (strip w) ls))"
        by auto
      from Cons.IH [OF this, of "files @ resolved" "msgs @ printed"] show ?thesis
        using False Inr b by (simp add: Let_def)
    qed
  qed
qed

lemma count_list_concat:
  "count_list (concat xss) p = sum_list (map (\<lambda>xs. count_list xs p) xss)"
  by (induction xss) simp_all

subsection \<open>Cache entries are written after confirmation\<close>

lemma entry_cong: "cache st' = cache st \<Longrightarrow> entry st' coll fn = entry st coll fn"
  by (simp add: entry_def collection_cache_of_def)

lemma list_ex_attach_append:
  "list_ex (is_attach_ok_of fid) es \<Longrightarrow> list_ex (is_attach_ok_of fid) (es @ es')"
  by simp

lemma confirmed_append: "confirmed es fid \<or> confirmed es' fid \<Longrightarrow> confirmed (es @ es') fid"
  by (induction es fid rule: confirmed.induct) auto

lemma writes_confirmed_refl: "writes_confirmed st st"
  by (simp add: writes_confirmed_def)

lemma writes_confirmed_trans:
  assumes "writes_confirmed st st'" "writes_confirmed st' st''"
  shows "writes_confirmed st st''"
proof -
  from assms(1) obtain ev where ev: "trace st' = trace st @ ev"
    "\<And>coll fn e. entry st' coll fn = Some e \<Longrightarrow>
       entry st coll fn = Some e \<or> (\<exists>fid. e_file_id e = Some fid \<and> fid \<noteq> [] \<and> confirmed ev fid)"
    unfolding writes_confirmed_def by blast
  from assms(2) obtain ev' where ev': "trace st'' = trace st' @ ev'"
    "\<And>coll fn e. entry st'' coll fn = Some e \<Longrightarrow>
       entry st' coll fn = Some e \<or> (\<exists>fid. e_file_id e = Some fid \<and> fid \<noteq> [] \<and> confirmed ev' fid)"
    unfolding writes_confirmed_def by blast
  have "trace st'' = trace st @ (ev @ ev')" using ev(1) ev'(1) by simp
  moreover have "entry st coll fn = Some e \<or>
      (\<exists>fid. e_file_id e = Some fid \<and> fid \<noteq> [] \<and> confirmed (ev @ ev') fid)"
    if "entry st'' coll fn = Some e" for coll fn e
    using ev'(2) [OF that] ev(2) [of coll fn e] confirmed_append [of ev _ ev'] by blast
  ultimately show ?thesis unfolding writes_confirmed_def by blast
qed

lemma writes_confirmed_same_cache:
  assumes "cache st' = cache st" "trace st' = trace st @ ev"
  shows "writes_confirmed st st'"
  unfolding writes_confirmed_def using assms entry_cong [OF assms(1)] by auto

lemma writes_confirmed_process_file:
  "writes_confirmed st (state_of (process_file w kb key force dry existing f (lv, st)))"
proof (cases "process_file w kb key force dry existing f (lv, st)")
  case (Inl a)
  obtain e st' where a: "a = (e, st')" by (cases a)
  from process_file_Inl [OF Inl [unfolded a]] have "st' = say (action (p_name f) existing) st" .
  then have "writes_confirmed st st'"
    by (intro writes_confirmed_same_cache [where ev = "[]"]) simp_all
  then show ?thesis using Inl a by (simp add: state_of_def)
next
  case (Inr b)
  obtain lv' st' where b: "b = (lv', st')" by (cases b)
  have so: "state_of (process_file w kb key force dry existing f (lv, st)) = st'"
    using Inr b by (simp add: state_of_def)
  from Inr [unfolded b] have "writes_confirmed st st'"
  proof (cases rule: process_file_cases)
    case skipped
    then show ?thesis by (simp add: writes_confirmed_refl)
  next
    case dry_run
    then show ?thesis by (intro writes_confirmed_same_cache [where ev = "[]"]) simp_all
  next
    case (failed ev ms)
    then show ?thesis by (intro writes_confirmed_same_cache [where ev = ev]) simp_all
  next
    case (synced fid ev ms)
    have "entry st' coll fn = entry (set_entry key (p_name f)
            \<lparr>e_hash = Some (file_hash w f), e_file_id = Some fid\<rparr> st) coll fn" for coll fn
      using synced(5) by (rule entry_cong)
    then show ?thesis unfolding writes_confirmed_def
      using synced(4,7,9) by (auto simp: entry_set_entry split: if_splits)
  qed
  then show ?thesis by (simp only: so)
qed

lemma writes_confirmed_sync_files:
  "writes_confirmed st (state_of (sync_files w kb key force dry existing files (lv, st)))"
proof (induction files arbitrary: lv st)
  case Nil
  then show ?case by (simp add: state_of_def writes_confirmed_refl)
next
  case (Cons f files)
  show ?case
  proof (cases "process_file w kb key force dry existing f (lv, st)")
    case (Inl a)
    then show ?thesis using writes_confirmed_process_file [of st w kb key force dry existing f lv]
      by (simp add: state_of_def)
  next
    case (Inr b)
    obtain lv' st' where b: "b = (lv', st')" by (cases b)
    have 1: "writes_confirmed st st'"
      using writes_confirmed_process_file [of st w kb key force dry existing f lv] Inr b
      by (simp add: state_of_def)
    have 2: "writes_confirmed st' (state_of (sync_files w kb key force dry existing files (lv', st')))"
      by (rule Cons.IH)
    show ?thesis using writes_confirmed_trans [OF 1 2] Inr b by simp
  qed
qed

lemma writes_confirmed_del_entry: "writes_confirmed st (del_entry key fn st)"
  unfolding writes_confirmed_def by (auto simp: entry_del_entry split: if_splits)

lemma writes_confirmed_remove_stale:
  "writes_confirmed st (snd (remove_stale w kb key dry existing (lv, st)))"
proof (induction existing arbitrary: lv st)
  case Nil
  then show ?case by (simp add: writes_confirmed_refl)
next
  case (Cons a existing)
  obtain filename file_id where a: "a = (filename, file_id)" by (cases a)
  show ?case
  proof (cases "filename \<notin> set (synced_filenames lv)")
    case False
    then show ?thesis using Cons.IH a by simp
  next
    case True
    let ?st1 = "say (Removing filename) st"
    let ?st2 = "if \<not> dry then snd (remove_file_from_knowledge w kb file_id ?st1) else ?st1"
    have "\<exists>ev. trace ?st2 = trace st @ ev \<and> cache ?st2 = cache st"
      using remove_file_props [of w kb file_id ?st1 "fst (remove_file_from_knowledge w kb file_id ?st1)"
           "snd (remove_file_from_knowledge w kb file_id ?st1)"]
      by (cases dry) auto
    then have 1: "writes_confirmed st ?st2"
      using writes_confirmed_same_cache by blast
    have 2: "writes_confirmed ?st2 (del_entry key filename ?st2)"
      by (rule writes_confirmed_del_entry)
    have 3: "writes_confirmed (del_entry key filename ?st2)
        (snd (remove_stale w kb key dry existing (lv\<lparr>removed := removed lv + 1\<rparr>, del_entry key filename ?st2)))"
      by (rule Cons.IH)
    show ?thesis
      using writes_confirmed_trans [OF writes_confirmed_trans [OF 1 2] 3] True a
      by (simp add: Let_def)
  qed
qed

lemma get_knowledge_files_props:
  assumes "get_knowledge_files w kb st = (existing, st')"
  shows "cache st' = cache st" "disk st' = disk st"
        "trace st' = trace st @ [ListFiles kb (remote_list_files w (trace st) kb)]"
        "\<exists>ms. out st' = out st @ ms"
        "existing = (case remote_list_files w (trace st) kb of None \<Rightarrow> []
                     | Some items \<Rightarrow> dict_of (filter (\<lambda>(filename, i). filename \<noteq> []) items))"
  using assms by (auto simp: get_knowledge_files_def Let_def split: option.splits)

lemma get_knowledge_bases_props:
  assumes "get_knowledge_bases w st = (kbs, st')"
  shows "cache st' = cache st" "disk st' = disk st"
        "trace st' = trace st @ [ListCollections (remote_list_collections w (trace st))]"
        "out st' = out st @ (if remote_list_collections w (trace st) = None then [ErrorFetchingKBs] else [])"
        "kbs = (case remote_list_collections w (trace st) of None \<Rightarrow> [] | Some items \<Rightarrow> dict_of items)"
  using assms by (auto simp: get_knowledge_bases_def Let_def split: option.splits)

lemma create_knowledge_base_props:
  assumes "create_knowledge_base w name st = (r, st')"
  shows "cache st' = cache st" "disk st' = disk st"
        "trace st' = trace st @ [CreateCollection name r]"
        "r = remote_create w (trace st) name"
        "out st' = out st @ (if r = None then [ErrorCreatingKB name] else [])"
  using assms by (auto simp: create_knowledge_base_def Let_def split: option.splits)

lemma entry_init:
  assumes "name \<notin> set (map fst (cache st))"
  shows "entry (st\<lparr>cache := AList.update name [] (cache st)\<rparr>) coll fn = entry st coll fn"
proof -
  from assms have "map_of (cache st) name = None" by (simp add: map_of_eq_None_iff)
  then show ?thesis by (auto simp: entry_def collection_cache_of_def update_conv')
qed

lemma writes_confirmed_init:
  "writes_confirmed st (if name \<notin> set (map fst (cache st))
                        then st\<lparr>cache := AList.update name [] (cache st)\<rparr> else st)"
  unfolding writes_confirmed_def using entry_init [of name st] by auto

lemma writes_confirmed_sync_known:
  "writes_confirmed st (state_of (sync_known w kb name force dry files st))"
proof -
  obtain existing st1 where g: "(if dry then ([], st) else get_knowledge_files w kb st) = (existing, st1)"
    by (cases "if dry then ([], st) else get_knowledge_files w kb st")
  have 1: "writes_confirmed st st1"
  proof (cases dry)
    case True
    with g show ?thesis by (simp add: writes_confirmed_refl)
  next
    case False
    with g have "get_knowledge_files w kb st = (existing, st1)" by simp
    from get_knowledge_files_props(1,3) [OF this] show ?thesis
      by (rule writes_confirmed_same_cache)
  qed
  let ?st2 = "if name \<notin> set (map fst (cache st1))
              then st1\<lparr>cache := AList.update name [] (cache st1)\<rparr> else st1"
  have 2: "writes_confirmed st ?st2"
    using writes_confirmed_trans [OF 1 writes_confirmed_init] .
  let ?lv0 = "\<lparr>added = 0, updated = 0, removed = 0, synced_filenames = []\<rparr>"
  have 3: "writes_confirmed st (state_of (sync_files w kb name force dry existing files (?lv0, ?st2)))"
    using writes_confirmed_trans [OF 2 writes_confirmed_sync_files] .
  show ?thesis
  proof (cases "sync_files w kb name force dry existing files (?lv0, ?st2)")
    case (Inl a)
    then show ?thesis using 3 g by (auto simp: sync_known_def Let_def state_of_def)
  next
    case (Inr s)
    obtain lv' st' where s: "s = (lv', st')" by (cases s)
    obtain lv3 st3 where r: "remove_stale w kb name dry existing (lv', st') = (lv3, st3)"
      by (cases "remove_stale w kb name dry existing (lv', st')")
    have 4: "writes_confirmed st st'" using 3 Inr s by (simp add: state_of_def)
    have 5: "writes_confirmed st st3"
      using writes_confirmed_trans [OF 4 writes_confirmed_remove_stale [of st' w kb name dry existing lv']] r
      by simp
    show ?thesis
    proof (cases dry)
      case True
      then show ?thesis using g Inr s r 5 by (simp add: sync_known_def Let_def state_of_def)
    next
      case False
      have 6: "writes_confirmed st3 (st3\<lparr>disk := Present (Some (json_dumps w (cache st3)))\<rparr>)"
        by (intro writes_confirmed_same_cache [where ev = "[]"]) simp_all
      show ?thesis using False g Inr s r 5 writes_confirmed_trans [OF 5 6]
        by (simp add: sync_known_def Let_def state_of_def save_cache_def)
    qed
  qed
qed

lemma writes_confirmed_sync_collection:
  "writes_confirmed st (state_of (sync_collection w md_path force dry st))"
proof -
  let ?name = "p_stem md_path"
  let ?st0 = "say (Syncing dry ?name) st"
  show ?thesis
  proof (cases "parse_definition w md_path")
    case (Inl a)
    obtain e printed where a: "a = (e, printed)" by (cases a)
    have "writes_confirmed st (?st0\<lparr>out := out ?st0 @ printed\<rparr>)"
      by (intro writes_confirmed_same_cache [where ev = "[]"]) simp_all
    then show ?thesis using Inl a by (simp add: sync_collection_def Let_def state_of_def)
  next
    case (Inr b)
    obtain files printed where b: "b = (files, printed)" by (cases b)
    let ?st1 = "say (Found (length files)) (?st0\<lparr>out := out ?st0 @ printed\<rparr>)"
    have 1: "writes_confirmed st ?st1"
      by (intro writes_confirmed_same_cache [where ev = "[]"]) simp_all
    show ?thesis
    proof (cases "files = []")
      case True
      then show ?thesis using Inr b 1 by (simp add: sync_collection_def Let_def state_of_def)
    next
      case ne: False
      obtain kbs st2 where g: "get_knowledge_bases w ?st1 = (kbs, st2)"
        by (cases "get_knowledge_bases w ?st1")
      have 2: "writes_confirmed st st2"
        using writes_confirmed_trans [OF 1 writes_confirmed_same_cache
            [OF get_knowledge_bases_props(1,3) [OF g]]] .
      let ?st3 = "say (CreatingKB ?name) st2"
      have 3: "writes_confirmed st ?st3"
        using writes_confirmed_trans [OF 2 writes_confirmed_same_cache [where ev = "[]"]] by simp
      obtain c st4 where cr: "create_knowledge_base w ?name ?st3 = (c, st4)"
        by (cases "create_knowledge_base w ?name ?st3")
      have 4: "writes_confirmed st st4"
        using writes_confirmed_trans [OF 3 writes_confirmed_same_cache
            [OF create_knowledge_base_props(1,3) [OF cr]]] .
      have k: "writes_confirmed st (state_of (sync_known w kb ?name force dry files s))"
        if "writes_confirmed st s" for kb s
        using writes_confirmed_trans [OF that writes_confirmed_sync_known] .
      show ?thesis using Inr b ne g cr 4 k [OF 2] k [OF 3] k [OF 4]
        by (cases dry; simp add: sync_collection_def Let_def state_of_def)
    qed
  qed
qed

subsection \<open>Listings and dry runs\<close>

lemma fold_update_keys:
  "fst ` set (fold (\<lambda>(k, v) d. AList.update k v d) items d) = fst ` set d \<union> fst ` set items"
proof (induction items arbitrary: d)
  case Nil
  then show ?case by simp
next
  case (Cons a items)
  obtain k v where a: "a = (k, v)" by (cases a)
  have "fst ` set (fold (\<lambda>(k, v) d. AList.update k v d) (a # items) d) =
        fst ` set (AList.update k v d) \<union> fst ` set items"
    using Cons.IH [of "AList.update k v d"] a by simp
  also have "\<dots> = ({k} \<union> fst ` set d) \<union> fst ` set items"
    by (simp only: dom_update)
  also have "\<dots> = fst ` set d \<union> fst ` set (a # items)"
    using a by auto
  finally show ?case .
qed

lemma dict_of_keys: "fst ` set (dict_of items) = fst ` set items"
  by (simp add: dict_of_def fold_update_keys)

lemma map_of_dict_of_None: "k \<notin> fst ` set items \<Longrightarrow> map_of (dict_of items) k = None"
  by (simp add: map_of_eq_None_iff dict_of_keys)

lemma writes_confirmed_trace: "writes_confirmed st st' \<Longrightarrow> \<exists>ev. trace st' = trace st @ ev"
  unfolding writes_confirmed_def by blast

lemma in_listing_Nil [simp]: "\<not> in_listing fn []"
  by (simp add: in_listing_def)

lemma sync_files_dry:
  "sync_files w kb key force True [] files (lv, st) =
     Inr (lv\<lparr>added := added lv + length files,
               synced_filenames := synced_filenames lv @ map p_name files\<rparr>,
          st\<lparr>out := out st @ map (\<lambda>f. Adding (p_name f)) files\<rparr>)"
proof (induction files arbitrary: lv st)
  case Nil
  then show ?case by simp
next
  case (Cons f files)
  have "process_file w kb key force True [] f (lv, st) =
     Inr (lv\<lparr>added := added lv + 1, synced_filenames := synced_filenames lv @ [p_name f]\<rparr>,
          st\<lparr>out := out st @ [Adding (p_name f)]\<rparr>)"
    by (simp add: process_file_def Let_def skip_condition_def action_def count_synced_def say_def)
  then show ?case using Cons.IH by simp
qed

lemma sync_known_dry:
  "\<exists>st'. sync_known w kb name force True files st = Inr ((length files, 0, 0), st')
     \<and> trace st' = trace st \<and> disk st' = disk st"
  by (simp add: sync_known_def Let_def sync_files_dry counts_def)

lemma sync_collection_dry:
  assumes "parse_definition w md_path = Inr (files, printed)"
  shows "\<exists>st'. sync_collection w md_path force True st = Inr ((length files, 0, 0), st')
     \<and> disk st' = disk st \<and> filter is_mutation (trace st') = filter is_mutation (trace st)"
proof (cases "files = []")
  case True
  then show ?thesis using assms by (simp add: sync_collection_def Let_def)
next
  case False
  let ?st1 = "say (Found (length files))
     (say (Syncing True (p_stem md_path)) st\<lparr>out := out (say (Syncing True (p_stem md_path)) st) @ printed\<rparr>)"
  obtain kbs st2 where g: "get_knowledge_bases w ?st1 = (kbs, st2)"
    by (cases "get_knowledge_bases w ?st1")
  note gp = get_knowledge_bases_props [OF g]
  have k: "\<exists>st'. sync_known w kb (p_stem md_path) force True files s = Inr ((length files, 0, 0), st')
     \<and> disk st' = disk st \<and> filter is_mutation (trace st') = filter is_mutation (trace st)"
    if "disk s = disk st" "filter is_mutation (trace s) = filter is_mutation (trace st)" for kb s
    using sync_known_dry [of w kb "p_stem md_path" force files s] that by auto
  have s2: "disk st2 = disk st" "filter is_mutation (trace st2) = filter is_mutation (trace st)"
    using gp(2,3) by simp_all
  show ?thesis using assms False g k [OF s2] k [of "say (CreatingKB (p_stem md_path)) st2"] s2
    by (simp add: sync_collection_def Let_def)
qed

subsection \<open>A clean run brings the cache up to date\<close>

lemma extends_refl: "extends st st"
  by (simp add: extends_def)

lemma extends_trans: "extends a b \<Longrightarrow> extends b c \<Longrightarrow> extends a c"
  unfolding extends_def by auto

lemma extendsI: "trace st' = trace st @ ev \<Longrightarrow> out st' = out st @ ms \<Longrightarrow> extends st st'"
  unfolding extends_def by blast

lemma clean_run_split:
  assumes "extends a b" "extends b c" "clean_run a c"
  shows "clean_run a b" "clean_run b c"
proof -
  from assms(1) obtain e1 m1 where 1: "trace b = trace a @ e1" "out b = out a @ m1"
    unfolding extends_def by blast
  from assms(2) obtain e2 m2 where 2: "trace c = trace b @ e2" "out c = out b @ m2"
    unfolding extends_def by blast
  have "new_events a c = e1 @ e2" "new_output a c = m1 @ m2"
       "new_events a b = e1" "new_output a b = m1" "new_events b c = e2" "new_output b c = m2"
    using 1 2 by (simp_all add: new_events_def new_output_def)
  with assms(3) show "clean_run a b" "clean_run b c"
    by (simp_all add: clean_run_def)
qed

lemma extends_process_file:
  assumes "process_file w kb key force dry existing f (lv, st) = Inr (lv', st')"
  shows "extends st st'"
  using assms
proof (cases rule: process_file_cases)
  case skipped
  then show ?thesis by (simp add: extends_refl)
next
  case dry_run
  then show ?thesis by (intro extendsI [where ev = "[]"]) simp_all
next
  case (failed ev ms)
  then show ?thesis by (intro extendsI) simp_all
next
  case (synced fid ev ms)
  then show ?thesis by (intro extendsI) simp_all
qed

lemma sync_files_names_extends:
  assumes "sync_files w kb key force dry existing files (lv, st) = Inr (lv', st')"
  shows "extends st st' \<and> synced_filenames lv' = synced_filenames lv @ map p_name files"
  using assms
proof (induction files arbitrary: lv st)
  case Nil
  then show ?case by (simp add: extends_refl)
next
  case (Cons f files)
  from Cons.prems obtain lv1 st1 where
    1: "process_file w kb key force dry existing f (lv, st) = Inr (lv1, st1)"
    and 2: "sync_files w kb key force dry existing files (lv1, st1) = Inr (lv', st')"
    by (auto split: sum.splits)
  have n: "synced_filenames lv1 = synced_filenames lv @ [p_name f]"
    using 1 by (cases rule: process_file_cases) (simp_all add: count_synced_def)
  from Cons.IH [OF 2] have e2: "extends st1 st'"
    and n2: "synced_filenames lv' = synced_filenames lv1 @ map p_name files" by simp_all
  have "extends st st'" by (rule extends_trans [OF extends_process_file [OF 1] e2])
  then show ?case using n n2 by simp
qed

lemma up_to_date_entry:
  "up_to_date w key st f =
     (case entry st key (p_name f) of None \<Rightarrow> False
      | Some e \<Rightarrow> e_hash e = Some (file_hash w f) \<and> truthy (e_file_id e))"
  by (auto simp: up_to_date_def cached_hash_of_def cached_file_id_of_def entry_def truthy_def id_of_def
      split: option.splits)

lemma process_file_keeps_up_to_date:
  assumes "process_file w kb key force dry existing f (lv, st) = Inr (lv', st')"
    and "up_to_date w key st g"
    and "p_name g = p_name f \<longrightarrow> file_hash w g = file_hash w f"
  shows "up_to_date w key st' g"
  using assms(1)
proof (cases rule: process_file_cases)
  case skipped
  then show ?thesis using assms(2) by simp
next
  case dry_run
  then have "cache st' = cache st" by simp
  from entry_cong [OF this] assms(2) show ?thesis by (simp add: up_to_date_entry)
next
  case (failed ev ms)
  from entry_cong [OF failed(4)] assms(2) show ?thesis by (simp add: up_to_date_entry)
next
  case (synced fid ev ms)
  from entry_cong [OF synced(5)] assms(2,3) synced(4) show ?thesis
    by (simp add: up_to_date_entry entry_set_entry truthy_def id_of_def)
qed

lemma process_file_makes_up_to_date:
  assumes "process_file w kb key force False existing f (lv, st) = Inr (lv', st')"
    and "clean_run st st'"
  shows "up_to_date w key st' f"
  using assms(1)
proof (cases rule: process_file_cases)
  case skipped
  then show ?thesis by (simp add: up_to_date_def skip_condition_def)
next
  case dry_run
  then show ?thesis by simp
next
  case (failed ev ms)
  then have "new_events st st' = ev" "new_output st st' = action (p_name f) existing # ms"
    by (simp_all add: new_events_def new_output_def)
  with assms(2) failed(8) show ?thesis
    by (simp add: clean_run_def action_def)
next
  case (synced fid ev ms)
  from entry_cong [OF synced(5)] synced(4) show ?thesis
    by (simp add: up_to_date_entry entry_set_entry truthy_def id_of_def)
qed

lemma sync_files_keeps_up_to_date:
  assumes "sync_files w kb key force dry existing files (lv, st) = Inr (lv', st')"
    and "up_to_date w key st g"
    and "\<And>f. f \<in> set files \<Longrightarrow> p_name g = p_name f \<longrightarrow> file_hash w g = file_hash w f"
  shows "up_to_date w key st' g"
  using assms
proof (induction files arbitrary: lv st)
  case Nil
  then show ?case by simp
next
  case (Cons f files)
  from Cons.prems(1) obtain lv1 st1 where
    1: "process_file w kb key force dry existing f (lv, st) = Inr (lv1, st1)"
    and 2: "sync_files w kb key force dry existing files (lv1, st1) = Inr (lv', st')"
    by (auto split: sum.splits)
  have "p_name g = p_name f \<longrightarrow> file_hash w g = file_hash w f"
    by (rule Cons.prems(3)) simp
  then have u: "up_to_date w key st1 g"
    by (rule process_file_keeps_up_to_date [OF 1 Cons.prems(2)])
  show ?case
  proof (rule Cons.IH [OF 2 u])
    fix x assume "x \<in> set files"
    then have "x \<in> set (f # files)" by simp
    then show "p_name g = p_name x \<longrightarrow> file_hash w g = file_hash w x"
      by (rule Cons.prems(3))
  qed
qed

lemma same_name_same_hash_iff:
  "same_name_same_hash w files =
     (\<forall>f\<in>set files. \<forall>g\<in>set files. p_name f = p_name g \<longrightarrow> file_hash w f = file_hash w g)"
  by (simp add: same_name_same_hash_def list_all_iff)

lemma sync_files_makes_up_to_date:
  assumes "sync_files w kb key force False existing files (lv, st) = Inr (lv', st')"
    and "clean_run st st'"
    and "same_name_same_hash w files"
    and "f \<in> set files"
  shows "up_to_date w key st' f"
  using assms
proof (induction files arbitrary: lv st)
  case Nil
  then show ?case by simp
next
  case (Cons a files)
  from Cons.prems(1) obtain lv1 st1 where
    1: "process_file w kb key force False existing a (lv, st) = Inr (lv1, st1)"
    and 2: "sync_files w kb key force False existing files (lv1, st1) = Inr (lv', st')"
    by (auto split: sum.splits)
  have e1: "extends st st1" by (rule extends_process_file [OF 1])
  have e2: "extends st1 st'" using sync_files_names_extends [OF 2] by (rule conjunct1)
  note c = clean_run_split [OF e1 e2 Cons.prems(2)]
  have all: "\<forall>x\<in>set (a # files). \<forall>y\<in>set (a # files). p_name x = p_name y \<longrightarrow> file_hash w x = file_hash w y"
    using Cons.prems(3) by (simp only: same_name_same_hash_iff)
  have sn: "same_name_same_hash w files"
    unfolding same_name_same_hash_iff using all by (meson list.set_intros(2))
  show ?case
  proof (cases "f \<in> set files")
    case True
    from Cons.IH [OF 2 c(2) sn True] show ?thesis .
  next
    case False
    with Cons.prems(4) have fa: "f = a" by simp
    have u: "up_to_date w key st1 f"
      using process_file_makes_up_to_date [OF 1 c(1)] by (simp only: fa)
    show ?thesis
    proof (rule sync_files_keeps_up_to_date [OF 2 u])
      fix x assume "x \<in> set files"
      then have "x \<in> set (a # files)" by simp
      moreover have "f \<in> set (a # files)" by (simp add: fa)
      ultimately show "p_name f = p_name x \<longrightarrow> file_hash w f = file_hash w x"
        using all by blast
    qed
  qed
qed

lemma remove_stale_props:
  "extends st (snd (remove_stale w kb key dry existing (lv, st)))
   \<and> synced_filenames (fst (remove_stale w kb key dry existing (lv, st))) = synced_filenames lv
   \<and> (up_to_date w' key st g \<longrightarrow> p_name g \<in> set (synced_filenames lv) \<longrightarrow>
        up_to_date w' key (snd (remove_stale w kb key dry existing (lv, st))) g)"
proof (induction existing arbitrary: lv st)
  case Nil
  then show ?case by (simp add: extends_refl)
next
  case (Cons a existing)
  obtain filename file_id where a: "a = (filename, file_id)" by (cases a)
  show ?case
  proof (cases "filename \<notin> set (synced_filenames lv)")
    case False
    have r: "remove_stale w kb key dry (a # existing) (lv, st) =
             remove_stale w kb key dry existing (lv, st)"
      using False a by simp
    show ?thesis unfolding r by (rule Cons.IH)
  next
    case True
    let ?st1 = "say (Removing filename) st"
    obtain ok st2' where rm: "remove_file_from_knowledge w kb file_id ?st1 = (ok, st2')"
      by (cases "remove_file_from_knowledge w kb file_id ?st1")
    note rp = remove_file_props [OF rm]
    let ?st2 = "if \<not> dry then st2' else ?st1"
    let ?st3 = "del_entry key filename ?st2"
    let ?lv = "lv\<lparr>removed := removed lv + 1\<rparr>"
    have cc: "cache ?st2 = cache st" using rp(1) by simp
    have tr: "trace ?st2 = trace st @ (if \<not> dry then [DetachFile kb file_id ok] else [])"
      using rp(3) by simp
    have ou: "out ?st2 = out st @ (if \<not> dry then Removing filename # (if ok then [] else [ErrorRemoving])
                                  else [Removing filename])"
      using rp(5) by simp
    have e: "extends st ?st3"
      by (rule extendsI [where ev = "if \<not> dry then [DetachFile kb file_id ok] else []"
            and ms = "if \<not> dry then Removing filename # (if ok then [] else [ErrorRemoving])
                                  else [Removing filename]"])
         (simp_all only: del_entry_simps tr ou)
    have u: "up_to_date w' key ?st3 g" if "up_to_date w' key st g" "p_name g \<in> set (synced_filenames lv)"
    proof -
      from that(2) True have "p_name g \<noteq> filename" by auto
      then show ?thesis using that(1) entry_cong [OF cc, of key "p_name g"]
        by (simp add: up_to_date_entry entry_del_entry)
    qed
    have r: "remove_stale w kb key dry (a # existing) (lv, st) =
             remove_stale w kb key dry existing (?lv, ?st3)"
      using True a rm by (simp add: Let_def)
    have ih: "extends ?st3 (snd (remove_stale w kb key dry existing (?lv, ?st3)))
       \<and> synced_filenames (fst (remove_stale w kb key dry existing (?lv, ?st3))) = synced_filenames ?lv
       \<and> (up_to_date w' key ?st3 g \<longrightarrow> p_name g \<in> set (synced_filenames ?lv) \<longrightarrow>
            up_to_date w' key (snd (remove_stale w kb key dry existing (?lv, ?st3))) g)"
      by (rule Cons.IH)
    have 1: "extends st (snd (remove_stale w kb key dry existing (?lv, ?st3)))"
      using extends_trans [OF e] ih by blast
    have 2: "synced_filenames (fst (remove_stale w kb key dry existing (?lv, ?st3))) = synced_filenames lv"
      using ih by simp
    have 3: "up_to_date w' key st g \<longrightarrow> p_name g \<in> set (synced_filenames lv) \<longrightarrow>
            up_to_date w' key (snd (remove_stale w kb key dry existing (?lv, ?st3))) g"
      using ih u by simp
    show ?thesis unfolding r using 1 2 3 by blast
  qed
qed

lemma up_to_date_cong:
  "(\<And>fn. entry st' key fn = entry st key fn) \<Longrightarrow> up_to_date w key st' f = up_to_date w key st f"
  by (simp add: up_to_date_entry)

lemma sync_known_live_Inr:
  assumes "sync_known w kb name force False files st = Inr (c, st')"
  obtains existing st1 st2 lv3 st3 lv4 st4 where
    "get_knowledge_files w kb st = (existing, st1)"
    "st2 = (if name \<notin> set (map fst (cache st1))
            then st1\<lparr>cache := AList.update name [] (cache st1)\<rparr> else st1)"
    "sync_files w kb name force False existing files
       (\<lparr>added = 0, updated = 0, removed = 0, synced_filenames = []\<rparr>, st2) = Inr (lv3, st3)"
    "remove_stale w kb name False existing (lv3, st3) = (lv4, st4)"
    "fs_writable w" "st' = st4\<lparr>disk := Present (Some (json_dumps w (cache st4)))\<rparr>"
    "c = counts lv4"
proof -
  obtain existing st1 where g: "get_knowledge_files w kb st = (existing, st1)"
    by (cases "get_knowledge_files w kb st")
  let ?st2 = "if name \<notin> set (map fst (cache st1))
            then st1\<lparr>cache := AList.update name [] (cache st1)\<rparr> else st1"
  let ?lv0 = "\<lparr>added = 0, updated = 0, removed = 0, synced_filenames = []\<rparr>"
  from assms g obtain lv3 st3 where
    s: "sync_files w kb name force False existing files (?lv0, ?st2) = Inr (lv3, st3)"
    by (cases "sync_files w kb name force False existing files (?lv0, ?st2)")
       (auto simp: sync_known_def Let_def)
  obtain lv4 st4 where r: "remove_stale w kb name False existing (lv3, st3) = (lv4, st4)"
    by (cases "remove_stale w kb name False existing (lv3, st3)")
  from assms g s r have "fs_writable w" "st' = st4\<lparr>disk := Present (Some (json_dumps w (cache st4)))\<rparr>"
    "c = counts lv4"
    by (auto simp: sync_known_def Let_def save_cache_def split: if_splits)
  with g s r show ?thesis by (intro that [of existing st1 ?st2 lv3 st3 lv4 st4]) simp_all
qed

lemma sync_known_makes_up_to_date:
  assumes "sync_known w kb name force False files st = Inr (c, st')"
  shows "extends st st'" and "fs_writable w"
    and "clean_run st st' \<Longrightarrow> same_name_same_hash w files \<Longrightarrow> f \<in> set files
         \<Longrightarrow> up_to_date w name st' f"
proof -
  from assms obtain existing st1 st2 lv3 st3 lv4 st4 where
    g: "get_knowledge_files w kb st = (existing, st1)"
    and st2: "st2 = (if name \<notin> set (map fst (cache st1))
            then st1\<lparr>cache := AList.update name [] (cache st1)\<rparr> else st1)"
    and s: "sync_files w kb name force False existing files
       (\<lparr>added = 0, updated = 0, removed = 0, synced_filenames = []\<rparr>, st2) = Inr (lv3, st3)"
    and r: "remove_stale w kb name False existing (lv3, st3) = (lv4, st4)"
    and wr: "fs_writable w" and st': "st' = st4\<lparr>disk := Present (Some (json_dumps w (cache st4)))\<rparr>"
    by (rule sync_known_live_Inr)
  show "fs_writable w" by (rule wr)
  from get_knowledge_files_props(3,4) [OF g] have e01: "extends st st1"
    unfolding extends_def by blast
  have e12: "extends st1 st2" using st2 by (auto simp: extends_def)
  have e02: "extends st st2" by (rule extends_trans [OF e01 e12])
  from sync_files_names_extends [OF s] have e23: "extends st2 st3"
    and n3: "synced_filenames lv3 = map p_name files" by simp_all
  note rsp = remove_stale_props [where st = st3 and w = w and kb = kb and key = name and dry = False
      and existing = existing and lv = lv3 and w' = w]
  have e34: "extends st3 st4" using rsp r by simp
  have u34: "up_to_date w name st4 g" if "up_to_date w name st3 g" "p_name g \<in> set (synced_filenames lv3)" for g
    using rsp [where g = g] r that by simp
  have e4': "extends st4 st'" using st' by (auto simp: extends_def)
  have e3': "extends st3 st'" by (rule extends_trans [OF e34 e4'])
  show "extends st st'" by (rule extends_trans [OF e02 extends_trans [OF e23 e3']])
  show "up_to_date w name st' f"
    if cl: "clean_run st st'" and sn: "same_name_same_hash w files" and f: "f \<in> set files"
  proof -
    have "clean_run st2 st'" by (rule clean_run_split(2) [OF e02 extends_trans [OF e23 e3'] cl])
    then have "clean_run st2 st3" by (rule clean_run_split(1) [OF e23 e3'])
    from sync_files_makes_up_to_date [OF s this sn f] have "up_to_date w name st3 f" .
    moreover have "p_name f \<in> set (synced_filenames lv3)" using n3 f by simp
    ultimately have "up_to_date w name st4 f" by (rule u34)
    moreover have "entry st' name fn = entry st4 name fn" for fn
      using st' by (intro entry_cong) simp
    ultimately show ?thesis by (simp add: up_to_date_entry)
  qed
qed

lemma sync_collection_makes_up_to_date:
  assumes "parse_definition w md_path = Inr (files, printed)"
    and "sync_collection w md_path force False st = Inr (c, st')"
    and "clean_run st st'"
    and "same_name_same_hash w files"
    and "f \<in> set files"
  shows "up_to_date w (p_stem md_path) st' f \<and> fs_writable w"
proof -
  let ?name = "p_stem md_path"
  from assms(5) have ne: "files \<noteq> []" by auto
  let ?st1 = "say (Found (length files))
     (say (Syncing False ?name) st\<lparr>out := out (say (Syncing False ?name) st) @ printed\<rparr>)"
  have e01: "extends st ?st1" by (simp add: extends_def)
  obtain kbs st2 where g: "get_knowledge_bases w ?st1 = (kbs, st2)"
    by (cases "get_knowledge_bases w ?st1")
  note gp = get_knowledge_bases_props [OF g]
  have "extends ?st1 st2" using gp(3,4) unfolding extends_def by blast
  then have e02: "extends st st2" by (rule extends_trans [OF e01])
  let ?st3 = "say (CreatingKB ?name) st2"
  have e03: "extends st ?st3" by (rule extends_trans [OF e02]) (simp add: extends_def)
  obtain c' st4 where cr: "create_knowledge_base w ?name ?st3 = (c', st4)"
    by (cases "create_knowledge_base w ?name ?st3")
  note cp = create_knowledge_base_props [OF cr]
  have e34: "extends ?st3 st4" using cp(3,5) unfolding extends_def by blast
  have e04: "extends st st4" by (rule extends_trans [OF e03 e34])
  have k: "up_to_date w ?name st' f \<and> fs_writable w"
    if e: "extends st s" and sk: "sync_known w kb ?name force False files s = Inr (c, st')" for kb s
  proof -
    note m = sync_known_makes_up_to_date [OF sk]
    have "clean_run s st'" by (rule clean_run_split(2) [OF e m(1) assms(3)])
    from m(3) [OF this assms(4,5)] m(2) show ?thesis by simp
  qed
  show ?thesis
  proof (cases "truthy (map_of kbs ?name)")
    case True
    then have "sync_known w (id_of (map_of kbs ?name)) ?name force False files st2 = Inr (c, st')"
      using assms(1,2) ne g by (simp add: sync_collection_def Let_def)
    then show ?thesis by (rule k [OF e02])
  next
    case nt: False
    show ?thesis
    proof (cases "truthy c'")
      case True
      then have "sync_known w (id_of c') ?name force False files st4 = Inr (c, st')"
        using assms(1,2) ne g nt cr by (simp add: sync_collection_def Let_def)
      then show ?thesis by (rule k [OF e04])
    next
      case False
      then have "st' = st4" using assms(1,2) ne g nt cr by (simp add: sync_collection_def Let_def)
      with assms(3) have cl: "clean_run st st4" by simp
      have "clean_run ?st3 st4" by (rule clean_run_split(2) [OF e03 e34 cl])
      moreover have "new_events ?st3 st4 = [CreateCollection ?name c']"
        using cp(3) by (simp add: new_events_def)
      ultimately show ?thesis using False by (simp add: clean_run_def)
    qed
  qed
qed

lemma sync_files_all_skipped:
  assumes "\<And>f. f \<in> set files \<Longrightarrow> up_to_date w key st f \<and> in_listing (p_name f) existing"
  shows "sync_files w kb key False dry existing files (lv, st) =
           Inr (lv\<lparr>synced_filenames := synced_filenames lv @ map p_name files\<rparr>, st)"
  using assms
proof (induction files arbitrary: lv)
  case Nil
  then show ?case by simp
next
  case (Cons f files)
  have "up_to_date w key st f \<and> in_listing (p_name f) existing"
    by (rule Cons.prems) simp
  then have 1: "process_file w kb key False dry existing f (lv, st) =
     Inr (lv\<lparr>synced_filenames := synced_filenames lv @ [p_name f]\<rparr>, st)"
    by (simp add: process_file_def Let_def skip_condition_def up_to_date_def)
  have 2: "sync_files w kb key False dry existing files
            (lv\<lparr>synced_filenames := synced_filenames lv @ [p_name f]\<rparr>, st) =
     Inr (lv\<lparr>synced_filenames := synced_filenames lv @ [p_name f]\<rparr>
            \<lparr>synced_filenames := synced_filenames (lv\<lparr>synced_filenames := synced_filenames lv @ [p_name f]\<rparr>)
                @ map p_name files\<rparr>, st)"
  proof (rule Cons.IH)
    fix x assume "x \<in> set files"
    then have "x \<in> set (f # files)" by simp
    then show "up_to_date w key st x \<and> in_listing (p_name x) existing" by (rule Cons.prems)
  qed
  show ?case by (simp add: 1 2)
qed

lemma remove_stale_nothing:
  assumes "set (map fst existing) \<subseteq> set (synced_filenames lv)"
  shows "remove_stale w kb key dry existing (lv, st) = (lv, st)"
  using assms by (induction existing) auto

lemma sync_known_idle:
  assumes "\<And>f. f \<in> set files \<Longrightarrow> up_to_date w name st f"
    and "remote_list_files w (trace st) kb = Some items"
    and "set (map fst (filter (\<lambda>(fn, i). fn \<noteq> []) items)) = set (map p_name files)"
    and "fs_writable w"
  shows "\<exists>st'. sync_known w kb name False False files st = Inr ((0, 0, 0), st')
           \<and> trace st' = trace st @ [ListFiles kb (Some items)]
           \<and> (\<forall>coll fn. entry st' coll fn = entry st coll fn)"
proof -
  let ?existing = "dict_of (filter (\<lambda>(fn, i). fn \<noteq> []) items)"
  let ?st1 = "sent (ListFiles kb (Some items)) st"
  have g: "get_knowledge_files w kb st = (?existing, ?st1)"
    using assms(2) by (simp add: get_knowledge_files_def Let_def)
  let ?st2 = "if name \<notin> set (map fst (cache ?st1))
            then ?st1\<lparr>cache := AList.update name [] (cache ?st1)\<rparr> else ?st1"
  have en: "entry ?st2 coll fn = entry st coll fn" for coll fn
  proof (cases "name \<notin> set (map fst (cache ?st1))")
    case True
    then show ?thesis using entry_init [OF True, of coll fn] entry_cong [of ?st1 st coll fn] by simp
  next
    case False
    then show ?thesis using entry_cong [of ?st1 st coll fn] by simp
  qed
  have keys: "set (map fst ?existing) = set (map p_name files)"
    using dict_of_keys [of "filter (\<lambda>(fn, i). fn \<noteq> []) items"] assms(3) by simp
  have sk: "up_to_date w name ?st2 f \<and> in_listing (p_name f) ?existing" if "f \<in> set files" for f
  proof -
    have "up_to_date w name ?st2 f = up_to_date w name st f"
      by (rule up_to_date_cong) (rule en)
    moreover have "in_listing (p_name f) ?existing"
      unfolding in_listing_def keys using that by simp
    ultimately show ?thesis using assms(1) [OF that] by simp
  qed
  let ?lv0 = "\<lparr>added = 0, updated = 0, removed = 0, synced_filenames = []\<rparr>"
  let ?lv1 = "?lv0\<lparr>synced_filenames := synced_filenames ?lv0 @ map p_name files\<rparr>"
  have s: "sync_files w kb name False False ?existing files (?lv0, ?st2) = Inr (?lv1, ?st2)"
    by (rule sync_files_all_skipped) (rule sk)
  have r: "remove_stale w kb name False ?existing (?lv1, ?st2) = (?lv1, ?st2)"
    by (rule remove_stale_nothing) (use keys in simp)
  let ?st' = "?st2\<lparr>disk := Present (Some (json_dumps w (cache ?st2)))\<rparr>"
  have res: "sync_known w kb name False False files st = Inr ((0, 0, 0), ?st')"
    unfolding sync_known_def using g s r assms(4)
    by (simp add: Let_def save_cache_def counts_def)
  have t: "trace ?st' = trace st @ [ListFiles kb (Some items)]" by simp
  have e: "entry ?st' coll fn = entry st coll fn" for coll fn
  proof -
    have "entry ?st' coll fn = entry ?st2 coll fn" by (rule entry_cong) simp
    then show ?thesis by (simp only: en)
  qed
  from res t e show ?thesis by blast
qed

subsection \<open>Loading the cache when the file can be queried\<close>

lemma load_cache_tolerates:
  assumes "f \<noteq> Inaccessible"
  shows "\<exists>r. load_cache w f = Inr r"
    and "load_cache w Absent = Inr (JCache [], [])"
    and "load_cache w (Present None) = Inr (JCache [], [WarnCacheLoad])"
    and "json_loads w txt = None \<Longrightarrow> load_cache w (Present (Some txt)) = Inr (JCache [], [WarnCacheLoad])"
    and "json_loads w txt = Some v \<Longrightarrow> load_cache w (Present (Some txt)) = Inr (v, [])"
  using assms
  by (auto simp: load_cache_def try_except_def read_cache_def
      split: cache_file.splits sum.splits option.splits)

subsection \<open>The loop body in a live run\<close>

lemma process_file_skips_iff:
  "(process_file w kb key force dry existing f (lv, st) =
      Inr (lv\<lparr>synced_filenames := synced_filenames lv @ [p_name f]\<rparr>, st))
     = skip_condition force (cached_hash_of st key (p_name f)) (file_hash w f)
         (cached_file_id_of st key (p_name f)) (p_name f) existing"
proof -
  let ?skip = "skip_condition force (cached_hash_of st key (p_name f)) (file_hash w f)
                 (cached_file_id_of st key (p_name f)) (p_name f) existing"
  let ?r = "process_file w kb key force dry existing f (lv, st)"
  have a: "?skip \<Longrightarrow> ?r = Inr (lv\<lparr>synced_filenames := synced_filenames lv @ [p_name f]\<rparr>, st)"
    by (simp add: process_file_def Let_def)
  have b: "?r \<noteq> Inr (lv\<lparr>synced_filenames := synced_filenames lv @ [p_name f]\<rparr>, st)" if "\<not> ?skip"
  proof
    assume "?r = Inr (lv\<lparr>synced_filenames := synced_filenames lv @ [p_name f]\<rparr>, st)"
    with process_file_announces [OF that, where kb = kb and dry = dry and lv = lv] show False
      by (simp add: state_of_def)
  qed
  show ?thesis using a b by blast
qed

lemma process_file_live_requests:
  assumes "\<not> skip_condition force (cached_hash_of st key (p_name f)) (file_hash w f)
                 (cached_file_id_of st key (p_name f)) (p_name f) existing"
    and "fs_read_bytes w f = Some content"
  shows "\<exists>rest. trace (state_of (process_file w kb key force False existing f (lv, st))) =
           trace st @ PurgeVectors ''open-webui_knowledge'' (sha256_hex w content)
                    # PurgeVectors ''open-webui_files'' (sha256_hex w content)
                    # UploadFile f (remote_upload w
                        (trace st @ [PurgeVectors ''open-webui_knowledge'' (sha256_hex w content),
                                     PurgeVectors ''open-webui_files'' (sha256_hex w content)]) f)
                    # rest"
proof -
  let ?st2 = "clear_qdrant_duplicates (sha256_hex w content) (say (action (p_name f) existing) st)"
  obtain r st3 where up: "upload_file w f ?st2 = (r, st3)" by (cases "upload_file w f ?st2")
  note u = upload_file_props [OF up]
  obtain ok st4 where ad: "add_file_to_knowledge w kb (id_of r) (sha256_hex w content) st3 = (ok, st4)"
    by (cases "add_file_to_knowledge w kb (id_of r) (sha256_hex w content) st3")
  from add_file_props(3) [OF ad] obtain ev where ev: "trace st4 = trace st3 @ ev" by blast
  show ?thesis using assms up u(3,4) ad ev
    by (simp add: process_file_def Let_def state_of_def)
qed

section \<open>The claims\<close>

subsection \<open>The skip condition\<close>

text \<open>
  Claim C4, on a run where it fails. The claim: a resolved file is skipped if
  and only if force mode is off, the cached hash equals the file's current
  hash, a cached remote identifier exists and the remote listing contains the
  file name. In a dry run of \<^verbatim>\<open>sync_collection\<close> all four hold for \<^verbatim>\<open>a.md\<close> (the
  remote store, asked, lists it), and yet the file is not skipped: it is
  announced as \<^verbatim>\<open>Adding\<close> and counted as added, since line 338 puts the empty
  dictionary in the place of the remote listing in every dry run. (In a live
  run the loop body skips exactly under the four conditions, by lemma
  \<open>process_file_skips_iff\<close>, and otherwise purges and uploads, by lemma
  \<open>process_file_live_requests\<close>.)
\<close>

theorem dry_run_skips_nothing:
  "cached_hash_of synced_state ''docs'' ''a.md'' =
     Some (file_hash (demo_world ''x/a.md'') (demo_path ''x/a.md''))
   \<and> truthy (cached_file_id_of synced_state ''docs'' ''a.md'')
   \<and> remote_list_files (demo_world ''x/a.md'')
        (trace synced_state @ [ListCollections (Some [(''docs'', ''kb1'')])]) ''kb1'' =
       Some [(''a.md'', ''file-a.md'')]
   \<and> sync_collection (demo_world ''x/a.md'') docs_md False True synced_state =
       Inr ((1, 0, 0),
            synced_state\<lparr>trace := trace synced_state @ [ListCollections (Some [(''docs'', ''kb1'')])],
                         out := [Syncing True ''docs'', Found 1, Adding ''a.md'']\<rparr>)"
  by code_simp

subsection \<open>Duplicate content\<close>



subsection \<open>The definition parser\<close>

text \<open>
  Claim C7, as amended. For every definition document that can be read: when
  every path reference (a stripped line that is neither empty nor a comment) is
  resolved without an exception of the file system's queries, the parser
  returns the concatenation, in the order of the lines, of what each reference
  resolves to; when the resolution of a reference raises, the parser raises and
  returns no list. Nothing is deduplicated: a file occurs in the output once for
  each occurrence in the resolution of each reference, so a file that two
  references resolve to occurs twice.
\<close>

theorem parse_definition_concatenates:
  assumes "fs_read_text w md_path = Some content"
  shows "(list_all (resolves w) (path_refs w content) \<longrightarrow>
            parse_definition w md_path =
              Inr (concat (map (resolved_files w) (path_refs w content)),
                   concat (map (resolved_msgs w) (path_refs w content))))
       \<and> (\<not> list_all (resolves w) (path_refs w content) \<longrightarrow>
            (\<exists>e printed. parse_definition w md_path = Inl (e, printed)))
       \<and> (\<forall>files printed p. parse_definition w md_path = Inr (files, printed) \<longrightarrow>
            count_list files p =
              sum_list (map (\<lambda>ref. count_list (resolved_files w ref) p) (path_refs w content)))"
proof -
  have p: "parse_definition w md_path = parse_lines w (splitlines w content) ([], [])"
    using assms by (simp add: parse_definition_def)
  have 1: "parse_definition w md_path =
              Inr (concat (map (resolved_files w) (path_refs w content)),
                   concat (map (resolved_msgs w) (path_refs w content)))"
    if "list_all (resolves w) (path_refs w content)"
    using parse_lines_resolved [of w "splitlines w content" "[]" "[]"] that
    by (simp add: p path_refs_def)
  have 2: "\<exists>e printed. parse_definition w md_path = Inl (e, printed)"
    if "\<not> list_all (resolves w) (path_refs w content)"
    using parse_lines_raises [of w "splitlines w content" "[]" "[]"] that
    by (simp add: p path_refs_def)
  have 3: "count_list files p =
              sum_list (map (\<lambda>ref. count_list (resolved_files w ref) p) (path_refs w content))"
    if "parse_definition w md_path = Inr (files, printed)" for files printed p
  proof -
    from that 2 have "list_all (resolves w) (path_refs w content)" by auto
    from 1 [OF this] that have "files = concat (map (resolved_files w) (path_refs w content))"
      by simp
    then show ?thesis by (simp add: count_list_concat comp_def)
  qed
  from 1 2 3 show ?thesis by blast
qed

theorem parse_definition_concatenates_witness:
  "fs_read_text (demo_world ''x/a.md\<newline># b.md\<newline>b.md'') docs_md = Some ''x/a.md\<newline># b.md\<newline>b.md''
   \<and> parse_definition (demo_world ''x/a.md\<newline># b.md\<newline>b.md'') docs_md =
       Inr ([demo_path ''x/a.md'', demo_path ''b.md''], [])
   \<and> fs_read_text raising_world docs_md = Some ''x/a.md\<newline>too/long''
   \<and> (\<exists>e printed. parse_definition raising_world docs_md = Inl (e, printed))"
proof -
  let ?w = "demo_world ''x/a.md\<newline># b.md\<newline>b.md''"
  have h: "fs_read_text ?w docs_md = Some ''x/a.md\<newline># b.md\<newline>b.md''"
    by code_simp
  have a: "list_all (resolves ?w) (path_refs ?w ''x/a.md\<newline># b.md\<newline>b.md'')"
    by code_simp
  have e: "(concat (map (resolved_files ?w) (path_refs ?w ''x/a.md\<newline># b.md\<newline>b.md'')),
            concat (map (resolved_msgs ?w) (path_refs ?w ''x/a.md\<newline># b.md\<newline>b.md'')))
           = ([demo_path ''x/a.md'', demo_path ''b.md''], [])"
    by code_simp
  from parse_definition_concatenates [OF h] a have
    "parse_definition ?w docs_md =
       Inr (concat (map (resolved_files ?w) (path_refs ?w ''x/a.md\<newline># b.md\<newline>b.md'')),
            concat (map (resolved_msgs ?w) (path_refs ?w ''x/a.md\<newline># b.md\<newline>b.md'')))"
    by blast
  then have 1: "parse_definition ?w docs_md = Inr ([demo_path ''x/a.md'', demo_path ''b.md''], [])"
    by (simp only: e)
  have h': "fs_read_text raising_world docs_md = Some ''x/a.md\<newline>too/long''"
    by code_simp
  have a': "\<not> list_all (resolves raising_world) (path_refs raising_world ''x/a.md\<newline>too/long'')"
    by code_simp
  from parse_definition_concatenates [OF h'] a'
  have 2: "\<exists>e printed. parse_definition raising_world docs_md = Inl (e, printed)"
    by blast
  from h 1 h' 2 show ?thesis by blast
qed

text \<open>The claim as it was stated fails: two references to one file give it twice.\<close>

theorem parse_definition_keeps_duplicates:
  "parse_definition (demo_world ''x/a.md\<newline>x/a.md'') docs_md =
     Inr ([demo_path ''x/a.md'', demo_path ''x/a.md''], [])
   \<and> \<not> distinct [demo_path ''x/a.md'', demo_path ''x/a.md'']"
  by code_simp

subsection \<open>Loading the cache\<close>

text \<open>
  Claim C9, on a start where it fails. The claim: loading the cache never
  raises, whatever is found at the place of the cache file. When the cache file
  lies under a directory that cannot be searched, \<^verbatim>\<open>self.cache_file.exists()\<close>
  raises; the call stands at line 88, before the \<^verbatim>\<open>try\<close>, so the exception
  leaves \<^verbatim>\<open>_load_cache\<close> and no cache is set. (When \<^verbatim>\<open>exists()\<close> answers, the load
  returns: an absent file gives the empty cache, an unreadable file or invalid
  JSON gives the warning and the empty cache, by lemma \<open>load_cache_tolerates\<close>.)
\<close>

theorem load_cache_raises_on_inaccessible_file:
  "load_cache w Inaccessible = Inl (QueryError ''cache_file'')"
  by (simp add: load_cache_def)

subsection \<open>An empty definition\<close>

text \<open>
  Claim C10. For every collection whose definition resolves to an empty file
  list, \<^verbatim>\<open>sync_collection\<close> returns (0, 0, 0) at once: the state it leaves differs
  from the one it found only by the lines printed, so no request is sent (no
  collection is created, no listing is fetched, no file is detached, the removal
  scan is not reached), and the cache is neither changed nor written to disk,
  whatever the remote store holds.
\<close>

theorem empty_definition_returns_at_once:
  assumes "parse_definition w md_path = Inr ([], printed)"
  shows "sync_collection w md_path force dry_run st =
           Inr ((0, 0, 0),
                st\<lparr>out := out st @ [Syncing dry_run (p_stem md_path)] @ printed @ [Found 0]\<rparr>)"
  using assms by (simp add: sync_collection_def say_def Let_def)

theorem empty_definition_returns_at_once_witness:
  "parse_definition (demo_world ''# nothing'') docs_md = Inr ([], [])
   \<and> sync_collection (demo_world ''# nothing'') docs_md False False synced_state =
       Inr ((0, 0, 0), synced_state\<lparr>out := [Syncing False ''docs'', Found 0]\<rparr>)"
proof -
  have p: "parse_definition (demo_world ''# nothing'') docs_md = Inr ([], [])"
    by code_simp
  show ?thesis using p empty_definition_returns_at_once [OF p, of False False synced_state]
    by (simp add: synced_state_def docs_md_def demo_path_def Let_def)
qed

subsection \<open>Cache entries\<close>

text \<open>
  Claim C6. Over every run of \<^verbatim>\<open>sync_collection\<close>, live or dry, forced or not,
  returning or leaving with an exception: every cache entry held at the end
  that was not held at the start carries a non-empty remote file identifier,
  and among the requests sent during the run an upload was answered with that
  identifier and a later attachment of it was accepted. No entry is written
  without that confirmation.
\<close>

theorem cache_written_only_after_confirmation:
  assumes "st' = state_of (sync_collection w md_path force dry_run st)"
    and "entry st' coll fn = Some e"
    and "entry st coll fn \<noteq> Some e"
  shows "\<exists>fid. e_file_id e = Some fid \<and> fid \<noteq> [] \<and> confirmed (new_events st st') fid"
proof -
  from writes_confirmed_sync_collection [of st w md_path force dry_run] assms(1)
  obtain ev where ev: "trace st' = trace st @ ev"
    "\<And>coll fn e. entry st' coll fn = Some e \<Longrightarrow>
       entry st coll fn = Some e \<or> (\<exists>fid. e_file_id e = Some fid \<and> fid \<noteq> [] \<and> confirmed ev fid)"
    unfolding writes_confirmed_def by blast
  have "new_events st st' = ev" using ev(1) by (simp add: new_events_def)
  with ev(2) [OF assms(2)] assms(3) show ?thesis by simp
qed

theorem cache_written_only_after_confirmation_witness:
  "entry (state_of (sync_collection (demo_world ''x/a.md'') docs_md False False empty_state)) ''docs'' ''a.md''
     = Some \<lparr>e_hash = Some ''sha:x/a.md'', e_file_id = Some ''file-a.md''\<rparr>
   \<and> entry empty_state ''docs'' ''a.md'' \<noteq> Some \<lparr>e_hash = Some ''sha:x/a.md'', e_file_id = Some ''file-a.md''\<rparr>
   \<and> confirmed (new_events empty_state
        (state_of (sync_collection (demo_world ''x/a.md'') docs_md False False empty_state))) ''file-a.md''"
proof -
  let ?st' = "state_of (sync_collection (demo_world ''x/a.md'') docs_md False False empty_state)"
  let ?e = "\<lparr>e_hash = Some ''sha:x/a.md'', e_file_id = Some ''file-a.md''\<rparr>"
  have a: "entry ?st' ''docs'' ''a.md'' = Some ?e" by code_simp
  have b: "entry empty_state ''docs'' ''a.md'' \<noteq> Some ?e" by code_simp
  from cache_written_only_after_confirmation [OF refl a b]
  have "confirmed (new_events empty_state ?st') ''file-a.md''" by simp
  with a b show ?thesis by simp
qed

subsection \<open>Dry runs\<close>

text \<open>
  Claim C1, on a fixture where it fails. The claim: a dry run reports the same
  counts of added, updated and removed files as a live run on the same fixture.
  Here the definition names \<^verbatim>\<open>x/a.md\<close>, the cache holds its current hash and a
  remote identifier, and the remote store lists \<^verbatim>\<open>a.md\<close>: the live run skips the
  file and reports (0, 0, 0), the dry run reports (1, 0, 0). Line 338 puts the
  empty dictionary in the place of the remote listing in every dry run, so a
  dry run never skips, never reports an update and never reports a removal.
\<close>

theorem dry_run_counts_differ:
  "result_counts (sync_collection (demo_world ''x/a.md'') docs_md False True synced_state) = Some (1, 0, 0)
   \<and> result_counts (sync_collection (demo_world ''x/a.md'') docs_md False False synced_state) = Some (0, 0, 0)"
  by code_simp

subsection \<open>Creating the collection\<close>

text \<open>
  Claim C8, as amended. In a live run over a non-empty resolved file list, when
  the answer \<open>r\<close> to the collection listing does not hold the target name (or the
  listing failed), the creation of the collection is the first request sent
  after the listing, before any request about a file. If the creation fails
  (it raises or gives no identifier), \<^verbatim>\<open>sync_collection\<close> returns (0, 0, 0) having
  sent nothing but the listing and the creation, with the cache and the cache
  file as they were. A dry run creates no collection.
\<close>

theorem bootstrap_creates_collection_first:
  assumes "parse_definition w md_path = Inr (files, printed)"
    and "files \<noteq> []"
    and "r = remote_list_collections w (trace st)"
    and "p_stem md_path \<notin> set (map fst (case r of None \<Rightarrow> [] | Some items \<Rightarrow> items))"
    and "c = remote_create w (trace st @ [ListCollections r]) (p_stem md_path)"
    and "st' = state_of (sync_collection w md_path force False st)"
  shows "(\<exists>rest. trace st' = trace st @ ListCollections r # CreateCollection (p_stem md_path) c # rest)
     \<and> (\<not> truthy c \<longrightarrow>
          sync_collection w md_path force False st = Inr ((0, 0, 0), st')
          \<and> trace st' = trace st @ [ListCollections r, CreateCollection (p_stem md_path) c]
          \<and> cache st' = cache st \<and> disk st' = disk st)"
proof -
  let ?name = "p_stem md_path"
  let ?st1 = "say (Found (length files))
     (say (Syncing False ?name) st\<lparr>out := out (say (Syncing False ?name) st) @ printed\<rparr>)"
  obtain kbs st2 where g: "get_knowledge_bases w ?st1 = (kbs, st2)"
    by (cases "get_knowledge_bases w ?st1")
  note gp = get_knowledge_bases_props [OF g]
  have t2: "trace st2 = trace st @ [ListCollections r]" using gp(3) assms(3) by simp
  have rl: "remote_list_collections w (trace st) = r" using assms(3) by simp
  have "map_of kbs ?name = None"
  proof (cases r)
    case None
    then show ?thesis using gp(5) rl by simp
  next
    case (Some items)
    with assms(4) have "?name \<notin> fst ` set items" by simp
    then show ?thesis using gp(5) rl Some by (simp add: map_of_dict_of_None)
  qed
  then have nt: "\<not> truthy (map_of kbs ?name)" by (simp add: truthy_def id_of_def)
  let ?st3 = "say (CreatingKB ?name) st2"
  obtain c' st4 where cr: "create_knowledge_base w ?name ?st3 = (c', st4)"
    by (cases "create_knowledge_base w ?name ?st3")
  note cp = create_knowledge_base_props [OF cr]
  have c': "c' = c" using cp(4) t2 assms(5) by simp
  have t4: "trace st4 = trace st @ [ListCollections r, CreateCollection ?name c]"
    using cp(3) t2 c' by simp
  have s4: "cache st4 = cache st" "disk st4 = disk st" using cp(1,2) gp(1,2) by simp_all
  show ?thesis
  proof (cases "truthy c")
    case False
    have "sync_collection w md_path force False st = Inr ((0, 0, 0), st4)"
      using assms(1,2) g nt cr c' False by (simp add: sync_collection_def Let_def)
    then show ?thesis using assms(6) t4 s4 False by (simp add: state_of_def)
  next
    case True
    have "sync_collection w md_path force False st =
            sync_known w (id_of c) ?name force False files st4"
      using assms(1,2) g nt cr c' True by (simp add: sync_collection_def Let_def)
    then have "st' = state_of (sync_known w (id_of c) ?name force False files st4)"
      using assms(6) by simp
    with writes_confirmed_trace [OF writes_confirmed_sync_known [of st4 w "id_of c" ?name force False files]]
    obtain ev where "trace st' = trace st4 @ ev" by auto
    then show ?thesis using t4 True by simp
  qed
qed

theorem bootstrap_creates_collection_first_witness:
  "parse_definition no_kb_world docs_md = Inr ([demo_path ''x/a.md''], [])
   \<and> ''docs'' \<notin> set (map fst (case remote_list_collections no_kb_world [] of None \<Rightarrow> [] | Some items \<Rightarrow> items))
   \<and> (\<exists>rest. trace (state_of (sync_collection no_kb_world docs_md False False empty_state)) =
         ListCollections (Some []) # CreateCollection ''docs'' (Some ''kb-docs'') # rest)"
proof -
  have p: "parse_definition no_kb_world docs_md = Inr ([demo_path ''x/a.md''], [])"
    by code_simp
  have ne: "[demo_path ''x/a.md''] \<noteq> []" by simp
  have r: "Some [] = remote_list_collections no_kb_world (trace empty_state)" by code_simp
  have a: "p_stem docs_md \<notin> set (map fst (case Some [] of None \<Rightarrow> [] | Some items \<Rightarrow> items))"
    by simp
  have c: "Some ''kb-docs'' = remote_create no_kb_world (trace empty_state @ [ListCollections (Some [])]) (p_stem docs_md)"
    by code_simp
  have n: "p_stem docs_md = ''docs''" by code_simp
  have t: "trace empty_state = []" by code_simp
  have q: "remote_list_collections no_kb_world [] = Some []" by code_simp
  from bootstrap_creates_collection_first [OF p ne r a c refl, of False]
  have "\<exists>rest. trace (state_of (sync_collection no_kb_world docs_md False False empty_state)) =
         ListCollections (Some []) # CreateCollection ''docs'' (Some ''kb-docs'') # rest"
    by (simp add: n t)
  with p q show ?thesis by simp
qed

text \<open>The claim as it was stated fails in a dry run: the target name is absent
  from the listing, the file is processed and reported as added, and no
  collection is created.\<close>

theorem dry_run_creates_no_collection:
  "remote_list_collections no_kb_world [] = Some []
   \<and> sync_collection no_kb_world docs_md False True empty_state =
       Inr ((1, 0, 0),
            \<lparr>cache = [(''docs'', [])], disk = Absent, trace = [ListCollections (Some [])],
             out = [Syncing True ''docs'', Found 1, CreatingKB ''docs'', Adding ''a.md'']\<rparr>)"
  by code_simp

subsection \<open>Removal\<close>

text \<open>
  Claim C3, on a run where it fails. \<^verbatim>\<open>old.md\<close> is listed by the remote store
  and absent from the resolved file set, and the remote store refuses the
  detachment. The run sends the detachment, prints the error, and all the same
  deletes the cache entry of \<^verbatim>\<open>old.md\<close> and reports one file removed.
\<close>

theorem failed_removal_deletes_cache_entry:
  "sync_collection stale_world docs_md False False stale_state =
     Inr ((0, 0, 1),
          \<lparr>cache = [(''docs'', [(''a.md'', \<lparr>e_hash = Some ''sha:x/a.md'', e_file_id = Some ''file-a.md''\<rparr>)])],
           disk = Present (Some ''docs''),
           trace = [ListCollections (Some [(''docs'', ''kb1'')]),
                    ListFiles ''kb1'' (Some [(''a.md'', ''file-a.md''), (''old.md'', ''file-old.md'')]),
                    DetachFile ''kb1'' ''file-old.md'' False],
           out = [Syncing False ''docs'', Found 1, Removing ''old.md'', ErrorRemoving]\<rparr>)"
  by code_simp

subsection \<open>Idempotence\<close>

text \<open>
  Claim C2, as amended. Take a live run of \<^verbatim>\<open>sync_collection\<close> that returned and
  was clean: every upload and every creation it sent got its identifier and no
  file failed to be added. Let resolved files that share a file name have the
  same content hash. Let the remote store, asked by a second run, list the
  collection with a non-empty identifier and list as its files exactly the
  names of the resolved files. Then the second run, live and not forced,
  returns (0, 0, 0); the only requests it sends are the two listings, so it
  sends no upload, attachment, detachment, purge or creation; no cache entry
  changes; and every resolved file satisfies the skip condition.
\<close>

theorem second_run_is_idle:
  assumes "parse_definition w md_path = Inr (files, printed)"
    and "sync_collection w md_path force False st = Inr (c1, st1)"
    and "clean_run st st1"
    and "same_name_same_hash w files"
    and "remote_list_collections w (trace st1) = Some kbs"
    and "kb = id_of (map_of (dict_of kbs) (p_stem md_path))"
    and "kb \<noteq> []"
    and "remote_list_files w (trace st1 @ [ListCollections (Some kbs)]) kb = Some items"
    and "set (map fst (filter (\<lambda>(fn, i). fn \<noteq> []) items)) = set (map p_name files)"
    and "st2 = state_of (sync_collection w md_path False False st1)"
  shows "result_counts (sync_collection w md_path False False st1) = Some (0, 0, 0)
     \<and> new_events st1 st2 =
         (if files = [] then [] else [ListCollections (Some kbs), ListFiles kb (Some items)])
     \<and> (\<forall>coll fn. entry st2 coll fn = entry st1 coll fn)
     \<and> (\<forall>f \<in> set files.
           skip_condition False (cached_hash_of st1 (p_stem md_path) (p_name f)) (file_hash w f)
             (cached_file_id_of st1 (p_stem md_path) (p_name f)) (p_name f)
             (dict_of (filter (\<lambda>(fn, i). fn \<noteq> []) items)))"
proof (cases "files = []")
  case True
  have "sync_collection w md_path False False st1 =
          Inr ((0, 0, 0), st1\<lparr>out := out st1 @ [Syncing False (p_stem md_path)] @ printed @ [Found 0]\<rparr>)"
    using assms(1) True by (simp add: sync_collection_def say_def Let_def)
  then show ?thesis using assms(10) True
    by (simp add: result_counts_def state_of_def new_events_def entry_def collection_cache_of_def)
next
  case ne: False
  let ?name = "p_stem md_path"
  have up: "up_to_date w ?name st1 f" if "f \<in> set files" for f
    using sync_collection_makes_up_to_date [OF assms(1,2,3,4) that] by simp
  from ne obtain f0 where "f0 \<in> set files" by (cases files) auto
  from sync_collection_makes_up_to_date [OF assms(1,2,3,4) this] have wr: "fs_writable w" by simp
  let ?sa = "say (Found (length files))
     (say (Syncing False ?name) st1\<lparr>out := out (say (Syncing False ?name) st1) @ printed\<rparr>)"
  let ?sb = "sent (ListCollections (Some kbs)) ?sa"
  have g: "get_knowledge_bases w ?sa = (dict_of kbs, ?sb)"
    using assms(5) by (simp add: get_knowledge_bases_def Let_def)
  have tk: "truthy (map_of (dict_of kbs) ?name)" using assms(6,7) by (simp add: truthy_def)
  have run2: "sync_collection w md_path False False st1 = sync_known w kb ?name False False files ?sb"
    using assms(1,6) ne g tk by (simp add: sync_collection_def Let_def)
  have upb: "up_to_date w ?name ?sb f" if "f \<in> set files" for f
  proof -
    have "up_to_date w ?name ?sb f = up_to_date w ?name st1 f"
      by (rule up_to_date_cong) (rule entry_cong, simp)
    then show ?thesis using up [OF that] by simp
  qed
  have tb: "trace ?sb = trace st1 @ [ListCollections (Some kbs)]" by simp
  from sync_known_idle [of files w ?name ?sb kb items, OF upb] assms(8,9) wr tb
  obtain s' where s': "sync_known w kb ?name False False files ?sb = Inr ((0, 0, 0), s')"
    "trace s' = trace ?sb @ [ListFiles kb (Some items)]"
    "\<And>coll fn. entry s' coll fn = entry ?sb coll fn"
    by auto
  have st2: "st2 = s'" using assms(10) run2 s'(1) by (simp add: state_of_def)
  have 1: "result_counts (sync_collection w md_path False False st1) = Some (0, 0, 0)"
    using run2 s'(1) by (simp add: result_counts_def)
  have 2: "new_events st1 st2 = [ListCollections (Some kbs), ListFiles kb (Some items)]"
    using st2 s'(2) by (simp add: new_events_def)
  have 3: "entry st2 coll fn = entry st1 coll fn" for coll fn
  proof -
    have "entry ?sb coll fn = entry st1 coll fn" by (rule entry_cong) simp
    then show ?thesis using s'(3) [of coll fn] st2 by simp
  qed
  have keys: "set (map fst (dict_of (filter (\<lambda>(fn, i). fn \<noteq> []) items))) = set (map p_name files)"
    using dict_of_keys [of "filter (\<lambda>(fn, i). fn \<noteq> []) items"] assms(9) by simp
  have 4: "skip_condition False (cached_hash_of st1 ?name (p_name f)) (file_hash w f)
             (cached_file_id_of st1 ?name (p_name f)) (p_name f)
             (dict_of (filter (\<lambda>(fn, i). fn \<noteq> []) items))" if "f \<in> set files" for f
  proof -
    have "in_listing (p_name f) (dict_of (filter (\<lambda>(fn, i). fn \<noteq> []) items))"
      unfolding in_listing_def keys using that by simp
    then show ?thesis using up [OF that] by (simp add: skip_condition_def up_to_date_def)
  qed
  show ?thesis using 1 2 3 4 ne by simp
qed

theorem second_run_is_idle_witness:
  "clean_run empty_state (state_of (sync_collection two_files_world docs_md False False empty_state))
   \<and> same_name_same_hash two_files_world [demo_path ''x/a.md'', demo_path ''b.md'']
   \<and> result_counts (sync_collection two_files_world docs_md False False
        (state_of (sync_collection two_files_world docs_md False False empty_state))) = Some (0, 0, 0)
   \<and> new_events (state_of (sync_collection two_files_world docs_md False False empty_state))
        (state_of (sync_collection two_files_world docs_md False False
           (state_of (sync_collection two_files_world docs_md False False empty_state)))) =
       [ListCollections (Some [(''docs'', ''kb1'')]),
        ListFiles ''kb1'' (Some [(''a.md'', ''file-a.md''), (''b.md'', ''file-b.md'')])]"
proof -
  let ?w = two_files_world
  let ?st1 = "state_of (sync_collection ?w docs_md False False empty_state)"
  let ?files = "[demo_path ''x/a.md'', demo_path ''b.md'']"
  let ?kbs = "[(''docs'', ''kb1'')]"
  let ?items = "[(''a.md'', ''file-a.md''), (''b.md'', ''file-b.md'')]"
  have h1: "parse_definition ?w docs_md = Inr (?files, [])" by code_simp
  have h2: "sync_collection ?w docs_md False False empty_state = Inr ((2, 0, 0), ?st1)" by code_simp
  have h3: "clean_run empty_state ?st1" by code_simp
  have h4: "same_name_same_hash ?w ?files" by code_simp
  have h5: "remote_list_collections ?w (trace ?st1) = Some ?kbs" by code_simp
  have h6: "''kb1'' = id_of (map_of (dict_of ?kbs) (p_stem docs_md))" by code_simp
  have h7: "''kb1'' \<noteq> []" by simp
  have h8: "remote_list_files ?w (trace ?st1 @ [ListCollections (Some ?kbs)]) ''kb1'' = Some ?items"
    by code_simp
  have h9: "set (map fst (filter (\<lambda>(fn, i). fn \<noteq> []) ?items)) = set (map p_name ?files)"
    by code_simp
  from second_run_is_idle [OF h1 h2 h3 h4 h5 h6 h7 h8 h9 refl]
  have "result_counts (sync_collection ?w docs_md False False ?st1) = Some (0, 0, 0)
     \<and> new_events ?st1 (state_of (sync_collection ?w docs_md False False ?st1)) =
         [ListCollections (Some ?kbs), ListFiles ''kb1'' (Some ?items)]"
    by simp
  with h3 h4 show ?thesis by simp
qed

text \<open>The claim as it was stated fails: two resolved files of the same name and
  different content share one cache entry, which holds the hash of the one
  synced last. After a clean first run, with nothing changed, the second run
  uploads and attaches both files again.\<close>

theorem same_name_files_never_settle:
  "second_run_events same_name_world docs_md False empty_state =
     Some [ListCollections (Some [(''docs'', ''kb1'')]),
           ListFiles ''kb1'' (Some [(''a.md'', ''file-a.md''), (''a.md'', ''file-a.md'')]),
           PurgeVectors ''open-webui_knowledge'' ''sha:x/a.md'',
           PurgeVectors ''open-webui_files'' ''sha:x/a.md'',
           UploadFile (demo_path ''x/a.md'') (Some ''file-a.md''),
           AttachFile ''kb1'' ''file-a.md'' (Reply 200 []),
           PurgeVectors ''open-webui_knowledge'' ''sha:y/a.md'',
           PurgeVectors ''open-webui_files'' ''sha:y/a.md'',
           UploadFile (demo_path ''y/a.md'') (Some ''file-a.md''),
           AttachFile ''kb1'' ''file-a.md'' (Reply 200 [])]"
  by code_simp

end
